theory Spec2Isabelle
  imports Complex_Main "HOL-Library.Sublist"
begin

section \<open>JavaScript values, arrays and errors\<close>

text \<open>
  The board of \<^verbatim>\<open>GameState\<close> is an array of rows, each row an array of cell values
  (0 empty, 1 black, 2 white). A read outside a row yields \<^verbatim>\<open>undefined\<close>, a read of a
  row that does not exist makes the following index access throw a \<^verbatim>\<open>TypeError\<close>, and
  \<^verbatim>\<open>getPiece\<close> answers \<^verbatim>\<open>null\<close> for an invalid position. Coordinates are modelled as
  \<open>int\<close>: \<^verbatim>\<open>Number.isInteger\<close> holds for every coordinate of the model.
\<close>

datatype jsval = Num int | Null | Undefined

datatype error = TypeError | RangeError | Error string

type_synonym boardT = "jsval list list"

text \<open>\<^verbatim>\<open>board[y][x]\<close> for integers \<open>x\<close>, \<open>y\<close>.\<close>

definition boardAt :: "boardT \<Rightarrow> int \<Rightarrow> int \<Rightarrow> error + jsval" where
  "boardAt b px py =
     (if 0 \<le> py \<and> py < int (length b)
      then (let row = b ! nat py
            in if 0 \<le> px \<and> px < int (length row) then Inr (row ! nat px) else Inr Undefined)
      else Inl TypeError)"

text \<open>
  \<^verbatim>\<open>row[x] = v\<close>: inside the row the element is replaced, past its end the array grows
  (the gap reads as \<^verbatim>\<open>undefined\<close>), and a negative index sets a property that no
  element read ever sees.
\<close>

definition rowSet :: "jsval list \<Rightarrow> int \<Rightarrow> jsval \<Rightarrow> jsval list" where
  "rowSet row px v =
     (if px < 0 then row
      else if px < int (length row) then row[nat px := v]
      else row @ replicate (nat px - length row) Undefined @ [v])"

text \<open>\<^verbatim>\<open>board[y][x] = v\<close>.\<close>

definition boardSet :: "boardT \<Rightarrow> int \<Rightarrow> int \<Rightarrow> jsval \<Rightarrow> error + boardT" where
  "boardSet b px py v =
     (if 0 \<le> py \<and> py < int (length b)
      then Inr (b[nat py := rowSet (b ! nat py) px v])
      else Inl TypeError)"

subsection \<open>Numbers as strings\<close>

text \<open>The decimal form JavaScript gives an integer in a template literal or in \<^verbatim>\<open>join\<close>.\<close>

definition digitChar :: "nat \<Rightarrow> char" where
  "digitChar d = ''0123456789'' ! d"

function natToString :: "nat \<Rightarrow> string" where
  "natToString n = (if n < 10 then [digitChar n] else natToString (n div 10) @ [digitChar (n mod 10)])"
  by pat_completeness auto
termination
  by (relation "measure (\<lambda>n. n)") auto

declare natToString.simps [simp del]

definition numToString :: "int \<Rightarrow> string" where
  "numToString i = (if i < 0 then CHR ''-'' # natToString (nat (- i)) else natToString (nat i))"

section \<open>GameState\<close>

record Move =
  move_x :: int
  move_y :: int
  move_player :: int
  move_step :: int
  move_timestamp :: int
  move_number :: int

text \<open>Of the settings object, the fields the rule engine and the state read.\<close>

record Settings =
  forbiddenRules :: bool
  firstPlayer :: int
  settingsBoardSize :: int

record GameState =
  board :: boardT
  currentPlayer :: int
  moveHistory :: "Move list"
  gameStatus :: string
  winner :: "int option"
  startTime :: "int option"
  endTime :: "int option"
  moveCount :: int
  settings :: Settings
  boardSize :: int

text \<open>
  \<^verbatim>\<open>reset()\<close> rebuilds every field but \<^verbatim>\<open>boardSize\<close>; \<^verbatim>\<open>Array(n)\<close> throws a
  \<^verbatim>\<open>RangeError\<close> for a negative length. Logging and the event bus are not part of the
  state and are left out.
\<close>

definition reset :: "GameState \<Rightarrow> error + GameState" where
  "reset st =
     (if boardSize st < 0 then Inl RangeError
      else Inr (st\<lparr> board := replicate (nat (boardSize st)) (replicate (nat (boardSize st)) (Num 0)),
                    currentPlayer := 1,
                    moveHistory := [],
                    gameStatus := ''ready'',
                    winner := None,
                    startTime := None,
                    endTime := None,
                    moveCount := 0,
                    settings := \<lparr> forbiddenRules = True, firstPlayer = 1, settingsBoardSize = 15 \<rparr> \<rparr>))"

text \<open>The constructor: \<^verbatim>\<open>boardSize = 15\<close>, then \<^verbatim>\<open>reset()\<close>.\<close>

definition newGameState :: GameState where
  "newGameState =
     \<lparr> board = replicate 15 (replicate 15 (Num 0)),
       currentPlayer = 1,
       moveHistory = [],
       gameStatus = ''ready'',
       winner = None,
       startTime = None,
       endTime = None,
       moveCount = 0,
       settings = \<lparr> forbiddenRules = True, firstPlayer = 1, settingsBoardSize = 15 \<rparr>,
       boardSize = 15 \<rparr>"

definition isValidPosition :: "GameState \<Rightarrow> int \<Rightarrow> int \<Rightarrow> bool" where
  "isValidPosition st px py \<longleftrightarrow> px \<ge> 0 \<and> px < boardSize st \<and> py \<ge> 0 \<and> py < boardSize st"

definition getPiece :: "GameState \<Rightarrow> int \<Rightarrow> int \<Rightarrow> error + jsval" where
  "getPiece st px py = (if \<not> isValidPosition st px py then Inr Null else boardAt (board st) px py)"

definition posText :: "int \<Rightarrow> int \<Rightarrow> string" where
  "posText px py = ''('' @ numToString px @ '', '' @ numToString py @ '')''"

text \<open>
  \<^verbatim>\<open>applyMove(x, y, options)\<close>. The two readings of \<^verbatim>\<open>Date.now()\<close> are the
  arguments \<open>tMove\<close> and \<open>tStart\<close>. Every \<^verbatim>\<open>throw\<close> comes before the first
  assignment, so a failed call leaves the state as it was. The result pairs the outcome
  with the state after the call; the returned snapshot is a copy of that state.
\<close>

definition applyMove :: "GameState \<Rightarrow> int \<Rightarrow> int \<Rightarrow> int \<Rightarrow> int \<Rightarrow> (error + Move) \<times> GameState" where
  "applyMove st px py tMove tStart =
     (if \<not> isValidPosition st px py then (Inl (Error (''Invalid position: '' @ posText px py)), st)
      else case boardAt (board st) px py of
        Inl e \<Rightarrow> (Inl e, st)
      | Inr v \<Rightarrow>
          if v \<noteq> Num 0 then (Inl (Error (''Position occupied: '' @ posText px py)), st)
          else if gameStatus st \<noteq> ''playing'' \<and> gameStatus st \<noteq> ''ready''
          then (Inl (Error (''Cannot apply move in status: '' @ gameStatus st)), st)
          else
            let move = \<lparr> move_x = px, move_y = py, move_player = currentPlayer st,
                         move_step = moveCount st + 1, move_timestamp = tMove,
                         move_number = int (length (moveHistory st)) + 1 \<rparr>
            in case boardSet (board st) px py (Num (currentPlayer st)) of
                 Inl e \<Rightarrow> (Inl e, st)
               | Inr b' \<Rightarrow>
                   let st1 = st\<lparr> board := b', moveHistory := moveHistory st @ [move],
                                  moveCount := moveCount st + 1 \<rparr>;
                       st2 = (if gameStatus st1 = ''ready''
                              then st1\<lparr> gameStatus := ''playing'', startTime := Some tStart \<rparr>
                              else st1)
                   in (Inr move, st2))"

text \<open>
  \<^verbatim>\<open>undoMove(options)\<close>. \<open>Inr None\<close> is the answer \<^verbatim>\<open>{success: false}\<close> on an
  empty history. The history is popped before the board is written, so a \<^verbatim>\<open>TypeError\<close>
  of that write leaves the shortened history behind.
\<close>

definition undoMove :: "GameState \<Rightarrow> (error + Move option) \<times> GameState" where
  "undoMove st =
     (if length (moveHistory st) = 0 then (Inr None, st)
      else
        let lastMove = last (moveHistory st);
            st1 = st\<lparr> moveHistory := butlast (moveHistory st) \<rparr>
        in case boardSet (board st1) (move_x lastMove) (move_y lastMove) (Num 0) of
             Inl e \<Rightarrow> (Inl e, st1)
           | Inr b' \<Rightarrow>
               let st2 = st1\<lparr> board := b', moveCount := moveCount st1 - 1 \<rparr>;
                   st3 = (if length (moveHistory st2) = 0
                          then st2\<lparr> gameStatus := ''ready'', startTime := None, winner := None \<rparr>
                          else st2);
                   st4 = st3\<lparr> currentPlayer := move_player lastMove \<rparr>
               in (Inr (Some lastMove), st4))"

definition switchPlayer :: "GameState \<Rightarrow> GameState" where
  "switchPlayer st = st\<lparr> currentPlayer := (if currentPlayer st = 1 then 2 else 1) \<rparr>"

text \<open>
  The piece count of \<^verbatim>\<open>validateState\<close>:
  \<^verbatim>\<open>this.board.flat().filter(cell => cell !== 0).length\<close>.
\<close>

definition boardPieceCount :: "GameState \<Rightarrow> nat" where
  "boardPieceCount st = length (filter (\<lambda>cell. cell \<noteq> Num 0) (concat (board st)))"

text \<open>
  A run of operations on one state object: each step is a call of \<^verbatim>\<open>applyMove\<close>,
  \<^verbatim>\<open>undoMove\<close> or \<^verbatim>\<open>switchPlayer\<close>. The run is \<open>None\<close> as soon as a call is
  not successful (a thrown error, or \<^verbatim>\<open>{success: false}\<close> from \<^verbatim>\<open>undoMove\<close>).
\<close>

datatype Op = ApplyOp int int int int | UndoOp | SwitchOp

fun stepOp :: "GameState \<Rightarrow> Op \<Rightarrow> GameState option" where
  "stepOp st (ApplyOp px py tMove tStart) =
     (case applyMove st px py tMove tStart of (Inr m, st') \<Rightarrow> Some st' | (Inl e, st') \<Rightarrow> None)"
| "stepOp st UndoOp =
     (case undoMove st of (Inr (Some m), st') \<Rightarrow> Some st' | (Inr None, st') \<Rightarrow> None
                        | (Inl e, st') \<Rightarrow> None)"
| "stepOp st SwitchOp = Some (switchPlayer st)"

fun execOps :: "GameState \<Rightarrow> Op list \<Rightarrow> GameState option" where
  "execOps st [] = Some st"
| "execOps st (op # ops) = (case stepOp st op of None \<Rightarrow> None | Some st' \<Rightarrow> execOps st' ops)"

text \<open>
  The invariant behind the piece count: every recorded move lies on the board on a
  non-empty cell and carries a non-zero player, no two recorded moves share a cell, the
  player to move is not 0, and the piece count is the length of the history.
\<close>

definition stateInv :: "GameState \<Rightarrow> bool" where
  "stateInv st \<longleftrightarrow>
     (\<forall>m \<in> set (moveHistory st).
        0 \<le> move_y m \<and> move_y m < int (length (board st)) \<and>
        0 \<le> move_x m \<and> move_x m < int (length (board st ! nat (move_y m))) \<and>
        board st ! nat (move_y m) ! nat (move_x m) \<noteq> Num 0 \<and> move_player m \<noteq> 0) \<and>
     distinct (map (\<lambda>m. (move_x m, move_y m)) (moveHistory st)) \<and>
     currentPlayer st \<noteq> 0 \<and>
     boardPieceCount st = length (moveHistory st)"

text \<open>A short game used to exercise the operations: two stones stay on the board.\<close>

definition demoOps :: "Op list" where
  "demoOps = [ApplyOp 7 7 100 101, SwitchOp, ApplyOp 7 8 102 103, UndoOp, ApplyOp 8 8 104 105]"

section \<open>RuleEngine\<close>

record Direction =
  dx :: int
  dy :: int
  dirName :: string

definition directions :: "Direction list" where
  "directions =
     [\<lparr> dx = 1, dy = 0, dirName = ''horizontal'' \<rparr>,
      \<lparr> dx = 0, dy = 1, dirName = ''vertical'' \<rparr>,
      \<lparr> dx = 1, dy = 1, dirName = ''diagDown'' \<rparr>,
      \<lparr> dx = 1, dy = - 1, dirName = ''diagUp'' \<rparr>]"

subsection \<open>Counting a run: \<^verbatim>\<open>_countConsecutive\<close>, \<^verbatim>\<open>_getWinLine\<close>, \<^verbatim>\<open>checkWin\<close>\<close>

text \<open>
  One search loop of \<^verbatim>\<open>_countConsecutive\<close>, from index \<open>i\<close> on, with the count so
  far. \<open>sg\<close> is \<open>1\<close> for the positive and \<open>- 1\<close> for the negative direction. The
  result is the count and the value stored in \<^verbatim>\<open>rightEnd\<close> (or \<^verbatim>\<open>leftEnd\<close>), which
  stays \<^verbatim>\<open>null\<close> when the loop leaves the board or runs out.
\<close>

function countLoop ::
  "GameState \<Rightarrow> int \<Rightarrow> int \<Rightarrow> int \<Rightarrow> Direction \<Rightarrow> int \<Rightarrow> int \<Rightarrow> int \<Rightarrow> error + (int \<times> jsval)" where
  "countLoop st px py player d sg i cnt =
     (if i < boardSize st
      then (let nx = px + sg * dx d * i; ny = py + sg * dy d * i
            in if \<not> isValidPosition st nx ny then Inr (cnt, Null)
               else case getPiece st nx ny of
                 Inl e \<Rightarrow> Inl e
               | Inr v \<Rightarrow> if v \<noteq> Num player then Inr (cnt, v)
                          else countLoop st px py player d sg (i + 1) (cnt + 1))
      else Inr (cnt, Null))"
  by pat_completeness auto
termination
  by (relation "measure (\<lambda>(st, px, py, player, d, sg, i, cnt). nat (boardSize st - i))") auto

declare countLoop.simps [simp del]

record CountResult =
  count :: int
  leftEnd :: jsval
  rightEnd :: jsval
  isOpen :: bool

definition countConsecutive ::
  "GameState \<Rightarrow> int \<Rightarrow> int \<Rightarrow> int \<Rightarrow> Direction \<Rightarrow> error + CountResult" where
  "countConsecutive st px py player d =
     (case countLoop st px py player d 1 1 1 of
        Inl e \<Rightarrow> Inl e
      | Inr (c1, rEnd) \<Rightarrow>
          (case countLoop st px py player d (- 1) 1 c1 of
             Inl e \<Rightarrow> Inl e
           | Inr (c2, lEnd) \<Rightarrow>
               Inr \<lparr> count = c2, leftEnd = lEnd, rightEnd = rEnd,
                     isOpen = (lEnd = Num 0 \<and> rEnd = Num 0) \<rparr>))"

text \<open>
  One loop of \<^verbatim>\<open>_getWinLine\<close>: the coordinates collected from index \<open>i\<close> on, nearest
  first. The positive loop appends them to the line, the negative loop puts each in
  front of it.
\<close>

function winLineLoop ::
  "GameState \<Rightarrow> int \<Rightarrow> int \<Rightarrow> int \<Rightarrow> Direction \<Rightarrow> int \<Rightarrow> int \<Rightarrow> int \<Rightarrow> error + (int \<times> int) list" where
  "winLineLoop st px py player d sg cnt i =
     (if i < cnt
      then (let nx = px + sg * dx d * i; ny = py + sg * dy d * i
            in if \<not> isValidPosition st nx ny then Inr []
               else case getPiece st nx ny of
                 Inl e \<Rightarrow> Inl e
               | Inr v \<Rightarrow> if v \<noteq> Num player then Inr []
                          else (case winLineLoop st px py player d sg cnt (i + 1) of
                                  Inl e \<Rightarrow> Inl e
                                | Inr rest \<Rightarrow> Inr ((nx, ny) # rest)))
      else Inr [])"
  by pat_completeness auto
termination
  by (relation "measure (\<lambda>(st, px, py, player, d, sg, cnt, i). nat (cnt - i))") auto

declare winLineLoop.simps [simp del]

definition getWinLine ::
  "GameState \<Rightarrow> int \<Rightarrow> int \<Rightarrow> int \<Rightarrow> Direction \<Rightarrow> int \<Rightarrow> error + (int \<times> int) list" where
  "getWinLine st px py player d cnt =
     (case winLineLoop st px py player d 1 cnt 1 of
        Inl e \<Rightarrow> Inl e
      | Inr fwd \<Rightarrow>
          (case winLineLoop st px py player d (- 1) cnt 1 of
             Inl e \<Rightarrow> Inl e
           | Inr bwd \<Rightarrow> Inr (take 5 (rev bwd @ [(px, py)] @ fwd))))"

record WinResult =
  isWin :: bool
  isOverline :: bool
  winDirection :: "string option"
  winCount :: int
  winLine :: "(int \<times> int) list option"
  winPlayer :: int

text \<open>\<^verbatim>\<open>player || gameState.currentPlayer\<close>: an absent or zero player falls back.\<close>

definition effectivePlayer :: "GameState \<Rightarrow> int option \<Rightarrow> int" where
  "effectivePlayer st player =
     (case player of None \<Rightarrow> currentPlayer st
      | Some p \<Rightarrow> if p = 0 then currentPlayer st else p)"

text \<open>The loop of \<^verbatim>\<open>checkWin\<close> over the directions still to be looked at.\<close>

fun checkWinFrom :: "GameState \<Rightarrow> int \<Rightarrow> int \<Rightarrow> int \<Rightarrow> Direction list \<Rightarrow> error + WinResult" where
  "checkWinFrom st px py cp [] =
     Inr \<lparr> isWin = False, isOverline = False, winDirection = None, winCount = 0,
           winLine = None, winPlayer = cp \<rparr>"
| "checkWinFrom st px py cp (d # ds) =
     (case countConsecutive st px py cp d of
        Inl e \<Rightarrow> Inl e
      | Inr r \<Rightarrow>
          if count r \<ge> 5
          then (let over = (count r > 5 \<and> cp = 1 \<and> forbiddenRules (settings st))
                in case getWinLine st px py cp d (count r) of
                     Inl e \<Rightarrow> Inl e
                   | Inr line \<Rightarrow>
                       Inr \<lparr> isWin = \<not> over, isOverline = over,
                             winDirection = Some (dirName d), winCount = count r,
                             winLine = Some line, winPlayer = cp \<rparr>)
          else checkWinFrom st px py cp ds)"

definition checkWin :: "GameState \<Rightarrow> int \<Rightarrow> int \<Rightarrow> int option \<Rightarrow> error + WinResult" where
  "checkWin st px py player = checkWinFrom st px py (effectivePlayer st player) directions"

subsection \<open>The pattern matcher: \<^verbatim>\<open>_getLinePattern\<close> and \<^verbatim>\<open>_matchPattern\<close>\<close>

text \<open>
  The tag \<^verbatim>\<open>_getLinePattern\<close> pushes for one cell: \<open>- 1\<close> off the (15 by 15) board,
  \<open>1\<close> own stone, \<open>0\<close> empty, \<open>2\<close> anything else.
\<close>

definition lineCell :: "boardT \<Rightarrow> int \<Rightarrow> int \<Rightarrow> int \<Rightarrow> error + int" where
  "lineCell b player nx ny =
     (if nx < 0 \<or> nx \<ge> 15 \<or> ny < 0 \<or> ny \<ge> 15 then Inr (- 1)
      else case boardAt b nx ny of
        Inl e \<Rightarrow> Inl e
      | Inr v \<Rightarrow> if v = Num player then Inr 1 else if v = Num 0 then Inr 0 else Inr 2)"

text \<open>Results collected in order; the first error ends the collection.\<close>

fun collect :: "(error + 'a) list \<Rightarrow> error + 'a list" where
  "collect [] = Inr []"
| "collect (r # rs) =
     (case r of
        Inl e \<Rightarrow> Inl e
      | Inr v \<Rightarrow> (case collect rs of Inl e \<Rightarrow> Inl e | Inr vs \<Rightarrow> Inr (v # vs)))"

text \<open>
  \<^verbatim>\<open>_getLinePattern\<close> with \<^verbatim>\<open>range = 5\<close>: the first loop runs \<open>i\<close> from 4 down to 0
  against the direction, the second from 1 to 4 along it.
\<close>

definition getLinePattern :: "boardT \<Rightarrow> int \<Rightarrow> int \<Rightarrow> int \<Rightarrow> Direction \<Rightarrow> error + int list" where
  "getLinePattern b px py player d =
     collect (map (\<lambda>i. lineCell b player (px - dx d * i) (py - dy d * i)) [4, 3, 2, 1, 0] @
              map (\<lambda>i. lineCell b player (px + dx d * i) (py + dy d * i)) [1, 2, 3, 4])"

text \<open>\<^verbatim>\<open>line.join(',')\<close> and \<^verbatim>\<open>lineStr.includes(t)\<close>.\<close>

fun joinComma :: "string list \<Rightarrow> string" where
  "joinComma [] = []"
| "joinComma [s] = s"
| "joinComma (s # t # ss) = s @ '','' @ joinComma (t # ss)"

definition lineString :: "int list \<Rightarrow> string" where
  "lineString line = joinComma (map numToString line)"

definition strIncludes :: "string \<Rightarrow> string \<Rightarrow> bool" where
  "strIncludes s t \<longleftrightarrow> sublist t s"

datatype PatternType =
  Five | Overline | LiveFour | RushFour | LiveThree | SleepThree | LiveTwo | SleepTwo

text \<open>The string the source uses for each pattern type.\<close>

fun patternName :: "PatternType \<Rightarrow> string" where
  "patternName Five = ''five''"
| "patternName Overline = ''overline''"
| "patternName LiveFour = ''liveFour''"
| "patternName RushFour = ''rushFour''"
| "patternName LiveThree = ''liveThree''"
| "patternName SleepThree = ''sleepThree''"
| "patternName LiveTwo = ''liveTwo''"
| "patternName SleepTwo = ''sleepTwo''"

text \<open>
  \<^verbatim>\<open>_matchPattern\<close>, in the order of the source: five, overline (a regular expression
  that is a plain substring), live four, rush four, live three, sleep three, live two,
  sleep two. The result is the type and its score.
\<close>

definition matchPattern :: "int list \<Rightarrow> (PatternType \<times> int) option" where
  "matchPattern line =
     (let lineStr = lineString line in
      if strIncludes lineStr ''1,1,1,1,1'' then Some (Five, 100000)
      else if strIncludes lineStr ''1,1,1,1,1,1'' then Some (Overline, - 100000)
      else if strIncludes lineStr ''0,1,1,1,1,0'' then Some (LiveFour, 10000)
      else if strIncludes lineStr ''1,1,1,1,0'' \<or> strIncludes lineStr ''0,1,1,1,1'' \<or>
              strIncludes lineStr ''1,1,1,0,1'' \<or> strIncludes lineStr ''1,0,1,1,1''
           then Some (RushFour, 1000)
      else if strIncludes lineStr ''0,1,1,1,0'' \<or> strIncludes lineStr ''0,1,1,0,1,0''
           then Some (LiveThree, 1000)
      else if strIncludes lineStr ''1,1,1,0'' \<or> strIncludes lineStr ''0,1,1,1'' \<or>
              strIncludes lineStr ''1,1,0,1'' \<or> strIncludes lineStr ''1,0,1,1''
           then Some (SleepThree, 100)
      else if strIncludes lineStr ''0,1,1,0'' \<or> strIncludes lineStr ''0,1,0,1,0''
           then Some (LiveTwo, 100)
      else if strIncludes lineStr ''1,1,0'' \<or> strIncludes lineStr ''0,1,1'' \<or>
              strIncludes lineStr ''1,0,1''
           then Some (SleepTwo, 10)
      else None)"

record PatternInfo =
  patType :: PatternType
  patDirection :: string
  patLine :: "int list"
  patScore :: int

definition analyzeDirectionPatternOnBoard ::
  "boardT \<Rightarrow> int \<Rightarrow> int \<Rightarrow> int \<Rightarrow> Direction \<Rightarrow> error + PatternInfo option" where
  "analyzeDirectionPatternOnBoard b px py player d =
     (case getLinePattern b px py player d of
        Inl e \<Rightarrow> Inl e
      | Inr line \<Rightarrow>
          (case matchPattern line of
             None \<Rightarrow> Inr None
           | Some (t, sc) \<Rightarrow>
               Inr (Some \<lparr> patType = t, patDirection = dirName d, patLine = line,
                           patScore = sc \<rparr>)))"

subsection \<open>Forbidden moves: \<^verbatim>\<open>_checkOverline\<close>, \<^verbatim>\<open>_checkDoubleThree\<close>, \<^verbatim>\<open>_checkDoubleFour\<close>, \<^verbatim>\<open>detectForbidden\<close>\<close>

text \<open>
  One search loop of \<^verbatim>\<open>_checkOverline\<close>; the bounds are the literal 15 of the source
  and the stone looked for is black.
\<close>

function overlineLoop :: "boardT \<Rightarrow> int \<Rightarrow> int \<Rightarrow> Direction \<Rightarrow> int \<Rightarrow> int \<Rightarrow> int \<Rightarrow> error + int" where
  "overlineLoop b px py d sg i cnt =
     (if i < 15
      then (let nx = px + sg * dx d * i; ny = py + sg * dy d * i
            in if nx < 0 \<or> nx \<ge> 15 \<or> ny < 0 \<or> ny \<ge> 15 then Inr cnt
               else case boardAt b nx ny of
                 Inl e \<Rightarrow> Inl e
               | Inr v \<Rightarrow> if v \<noteq> Num 1 then Inr cnt
                          else overlineLoop b px py d sg (i + 1) (cnt + 1))
      else Inr cnt)"
  by pat_completeness auto
termination
  by (relation "measure (\<lambda>(b, px, py, d, sg, i, cnt). nat (15 - i))") auto

declare overlineLoop.simps [simp del]

record OverlineResult =
  ovIsOverline :: bool
  ovCount :: int
  ovDirection :: "string option"

fun checkOverlineFrom :: "boardT \<Rightarrow> int \<Rightarrow> int \<Rightarrow> Direction list \<Rightarrow> error + OverlineResult" where
  "checkOverlineFrom b px py [] =
     Inr \<lparr> ovIsOverline = False, ovCount = 0, ovDirection = None \<rparr>"
| "checkOverlineFrom b px py (d # ds) =
     (case overlineLoop b px py d 1 1 1 of
        Inl e \<Rightarrow> Inl e
      | Inr c1 \<Rightarrow>
          (case overlineLoop b px py d (- 1) 1 c1 of
             Inl e \<Rightarrow> Inl e
           | Inr c2 \<Rightarrow>
               if c2 > 5
               then Inr \<lparr> ovIsOverline = True, ovCount = c2, ovDirection = Some (dirName d) \<rparr>
               else checkOverlineFrom b px py ds))"

definition checkOverline :: "boardT \<Rightarrow> int \<Rightarrow> int \<Rightarrow> error + OverlineResult" where
  "checkOverline b px py = checkOverlineFrom b px py directions"

text \<open>
  The loop shared by \<^verbatim>\<open>_checkDoubleThree\<close> and \<^verbatim>\<open>_checkDoubleFour\<close>: the patterns
  of black, direction by direction, whose type passes the test.
\<close>

fun patternsWhere ::
  "(PatternType \<Rightarrow> bool) \<Rightarrow> boardT \<Rightarrow> int \<Rightarrow> int \<Rightarrow> Direction list \<Rightarrow> error + PatternInfo list" where
  "patternsWhere keep b px py [] = Inr []"
| "patternsWhere keep b px py (d # ds) =
     (case analyzeDirectionPatternOnBoard b px py 1 d of
        Inl e \<Rightarrow> Inl e
      | Inr pat \<Rightarrow>
          (case patternsWhere keep b px py ds of
             Inl e \<Rightarrow> Inl e
           | Inr rest \<Rightarrow>
               (case pat of
                  None \<Rightarrow> Inr rest
                | Some p \<Rightarrow> if keep (patType p) then Inr (p # rest) else Inr rest)))"

record DoubleResult =
  isDouble :: bool
  found :: "PatternInfo list"
  foundCount :: int

definition checkDoubleThree :: "boardT \<Rightarrow> int \<Rightarrow> int \<Rightarrow> error + DoubleResult" where
  "checkDoubleThree b px py =
     (case patternsWhere (\<lambda>t. t = LiveThree) b px py directions of
        Inl e \<Rightarrow> Inl e
      | Inr liveThrees \<Rightarrow>
          Inr \<lparr> isDouble = (length liveThrees \<ge> 2), found = liveThrees,
                foundCount = int (length liveThrees) \<rparr>)"

definition checkDoubleFour :: "boardT \<Rightarrow> int \<Rightarrow> int \<Rightarrow> error + DoubleResult" where
  "checkDoubleFour b px py =
     (case patternsWhere (\<lambda>t. t = LiveFour \<or> t = RushFour) b px py directions of
        Inl e \<Rightarrow> Inl e
      | Inr fours \<Rightarrow>
          Inr \<lparr> isDouble = (length fours \<ge> 2), found = fours,
                foundCount = int (length fours) \<rparr>)"

text \<open>An entry of \<^verbatim>\<open>forbiddenTypes\<close>: its \<^verbatim>\<open>type\<close> with the \<^verbatim>\<open>details\<close>.\<close>

datatype Violation =
  OVERLINE OverlineResult
| DOUBLE_THREE DoubleResult
| DOUBLE_FOUR DoubleResult

fun violationType :: "Violation \<Rightarrow> string" where
  "violationType (OVERLINE r) = ''OVERLINE''"
| "violationType (DOUBLE_THREE r) = ''DOUBLE_THREE''"
| "violationType (DOUBLE_FOUR r) = ''DOUBLE_FOUR''"

record ForbiddenResult =
  isForbidden :: bool
  types :: "Violation list"
  primaryType :: "string option"

text \<open>
  \<^verbatim>\<open>detectForbidden(gameState, x, y)\<close>: a copy of the board receives a black stone at
  \<open>(x, y)\<close>, then the three checks run in turn on the copy.
\<close>

definition detectForbidden :: "GameState \<Rightarrow> int \<Rightarrow> int \<Rightarrow> error + ForbiddenResult" where
  "detectForbidden st px py =
     (case boardSet (board st) px py (Num 1) of
        Inl e \<Rightarrow> Inl e
      | Inr tempBoard \<Rightarrow>
          (case checkOverline tempBoard px py of
             Inl e \<Rightarrow> Inl e
           | Inr overlineResult \<Rightarrow>
               (case checkDoubleThree tempBoard px py of
                  Inl e \<Rightarrow> Inl e
                | Inr doubleThreeResult \<Rightarrow>
                    (case checkDoubleFour tempBoard px py of
                       Inl e \<Rightarrow> Inl e
                     | Inr doubleFourResult \<Rightarrow>
                         (let forbiddenTypes =
                                (if ovIsOverline overlineResult then [OVERLINE overlineResult] else []) @
                                (if isDouble doubleThreeResult then [DOUBLE_THREE doubleThreeResult] else []) @
                                (if isDouble doubleFourResult then [DOUBLE_FOUR doubleFourResult] else [])
                          in Inr \<lparr> isForbidden = (length forbiddenTypes > 0),
                                   types = forbiddenTypes,
                                   primaryType = (if length forbiddenTypes > 0
                                                  then Some (violationType (forbiddenTypes ! 0))
                                                  else None) \<rparr>)))))"

subsection \<open>\<^verbatim>\<open>validateMove\<close>\<close>

text \<open>
  The result of \<^verbatim>\<open>validateMove\<close>: \<^verbatim>\<open>valid\<close>, the \<^verbatim>\<open>error\<close> code and the
  \<^verbatim>\<open>forbiddenInfo\<close>; the human-readable \<^verbatim>\<open>message\<close> is left out. The \<^verbatim>\<open>catch\<close>
  turns any thrown error into the code \<^verbatim>\<open>VALIDATION_ERROR\<close>.
\<close>

record ValidationResult =
  valid :: bool
  errorCode :: "string option"
  forbiddenInfo :: "ForbiddenResult option"

definition rejected :: "string \<Rightarrow> ValidationResult" where
  "rejected code = \<lparr> valid = False, errorCode = Some code, forbiddenInfo = None \<rparr>"

definition validateMove :: "GameState \<Rightarrow> int \<Rightarrow> int \<Rightarrow> ValidationResult" where
  "validateMove st px py =
     (if \<not> isValidPosition st px py then rejected ''INVALID_POSITION''
      else case getPiece st px py of
        Inl e \<Rightarrow> rejected ''VALIDATION_ERROR''
      | Inr v \<Rightarrow>
          if v \<noteq> Num 0 then rejected ''POSITION_OCCUPIED''
          else if forbiddenRules (settings st) \<and> currentPlayer st = 1
          then (case detectForbidden st px py of
                  Inl e \<Rightarrow> rejected ''VALIDATION_ERROR''
                | Inr forbiddenResult \<Rightarrow>
                    if isForbidden forbiddenResult
                    then \<lparr> valid = False, errorCode = Some ''FORBIDDEN_MOVE'',
                           forbiddenInfo = Some forbiddenResult \<rparr>
                    else \<lparr> valid = True, errorCode = None, forbiddenInfo = None \<rparr>)
          else \<lparr> valid = True, errorCode = None, forbiddenInfo = None \<rparr>)"

subsection \<open>\<^verbatim>\<open>getAvailableMoves\<close>\<close>

text \<open>The key \<^verbatim>\<open>`${x},${y}`\<close> under which a visited cell is remembered.\<close>

definition cellKey :: "int \<Rightarrow> int \<Rightarrow> string" where
  "cellKey px py = numToString px @ '','' @ numToString py"

text \<open>
  The body of the innermost loop: the state is the list \<^verbatim>\<open>availableMoves\<close> and the
  set \<^verbatim>\<open>searched\<close>; each \<^verbatim>\<open>continue\<close> returns the state reached so far.
\<close>

definition visitCell ::
  "GameState \<Rightarrow> bool \<Rightarrow> int \<Rightarrow> int \<Rightarrow> (int \<times> int) list \<times> string set \<Rightarrow>
     error + (int \<times> int) list \<times> string set" where
  "visitCell st includeForbidden px py acc =
     (case acc of (availableMoves, searched) \<Rightarrow>
        let key = cellKey px py in
        if key \<in> searched then Inr (availableMoves, searched)
        else let searched' = insert key searched in
          if \<not> isValidPosition st px py then Inr (availableMoves, searched')
          else case getPiece st px py of
            Inl e \<Rightarrow> Inl e
          | Inr v \<Rightarrow>
              if v \<noteq> Num 0 then Inr (availableMoves, searched')
              else if \<not> includeForbidden \<and> forbiddenRules (settings st) \<and> currentPlayer st = 1
              then (case detectForbidden st px py of
                      Inl e \<Rightarrow> Inl e
                    | Inr forbiddenResult \<Rightarrow>
                        if isForbidden forbiddenResult then Inr (availableMoves, searched')
                        else Inr (availableMoves @ [(px, py)], searched'))
              else Inr (availableMoves @ [(px, py)], searched'))"

text \<open>A \<^verbatim>\<open>for\<close> loop over a list whose body may throw.\<close>

fun forEach :: "('a \<Rightarrow> 's \<Rightarrow> error + 's) \<Rightarrow> 'a list \<Rightarrow> 's \<Rightarrow> error + 's" where
  "forEach body [] s = Inr s"
| "forEach body (a # as) s =
     (case body a s of Inl e \<Rightarrow> Inl e | Inr s' \<Rightarrow> forEach body as s')"

text \<open>
  \<^verbatim>\<open>getAvailableMoves(gameState, {range, includeForbidden})\<close>; the defaults of the
  options are \<open>2\<close> and \<open>False\<close>. The three nested loops run over the history, over
  \<open>dx\<close> and over \<open>dy\<close> from \<open>- searchRange\<close> to \<open>searchRange\<close>.
\<close>

definition getAvailableMoves :: "GameState \<Rightarrow> int \<Rightarrow> bool \<Rightarrow> error + (int \<times> int) list" where
  "getAvailableMoves st searchRange includeForbidden =
     (if length (moveHistory st) = 0
      then (let center = boardSize st div 2 in Inr [(center, center)])
      else case forEach (\<lambda>move.
                   forEach (\<lambda>ddx.
                     forEach (\<lambda>ddy. visitCell st includeForbidden (move_x move + ddx) (move_y move + ddy))
                       [- searchRange..searchRange])
                     [- searchRange..searchRange])
                 (moveHistory st) ([], {}) of
             Inl e \<Rightarrow> Inl e
           | Inr (availableMoves, searched) \<Rightarrow> Inr availableMoves)"

subsection \<open>\<^verbatim>\<open>analyzePattern\<close> and \<^verbatim>\<open>evaluatePosition\<close>\<close>

text \<open>
  \<^verbatim>\<open>_analyzeDirectionPattern\<close>: the stone of \<open>player\<close> is placed on a copy of the
  board before the line is read.
\<close>

definition analyzeDirectionPattern ::
  "GameState \<Rightarrow> int \<Rightarrow> int \<Rightarrow> int \<Rightarrow> Direction \<Rightarrow> error + PatternInfo option" where
  "analyzeDirectionPattern st px py player d =
     (case boardSet (board st) px py (Num player) of
        Inl e \<Rightarrow> Inl e
      | Inr tempBoard \<Rightarrow> analyzeDirectionPatternOnBoard tempBoard px py player d)"

fun analyzeDirections ::
  "GameState \<Rightarrow> int \<Rightarrow> int \<Rightarrow> int \<Rightarrow> Direction list \<Rightarrow> error + PatternInfo list" where
  "analyzeDirections st px py player [] = Inr []"
| "analyzeDirections st px py player (d # ds) =
     (case analyzeDirectionPattern st px py player d of
        Inl e \<Rightarrow> Inl e
      | Inr pat \<Rightarrow>
          (case analyzeDirections st px py player ds of
             Inl e \<Rightarrow> Inl e
           | Inr rest \<Rightarrow> (case pat of None \<Rightarrow> Inr rest | Some p \<Rightarrow> Inr (p # rest))))"

text \<open>The keys of \<^verbatim>\<open>patternCount\<close> and of the score table, in the order of the source.\<close>

definition patternKeys :: "PatternType list" where
  "patternKeys = [Five, Overline, LiveFour, RushFour, LiveThree, SleepThree, LiveTwo, SleepTwo]"

fun patternScore :: "PatternType \<Rightarrow> int" where
  "patternScore Five = 100000"
| "patternScore Overline = - 100000"
| "patternScore LiveFour = 10000"
| "patternScore RushFour = 1000"
| "patternScore LiveThree = 1000"
| "patternScore SleepThree = 100"
| "patternScore LiveTwo = 100"
| "patternScore SleepTwo = 10"

text \<open>\<^verbatim>\<open>_calculatePositionScore\<close>: every score of the table is non-zero, hence truthy.\<close>

definition calculatePositionScore :: "(PatternType \<times> int) list \<Rightarrow> int" where
  "calculatePositionScore patternCount =
     foldl (\<lambda>totalScore (pattern, cnt). totalScore + patternScore pattern * cnt) 0 patternCount"

record PatternAnalysis =
  anPosition :: "int \<times> int"
  anPlayer :: int
  anPatterns :: "PatternInfo list"
  anPatternCount :: "(PatternType \<times> int) list"
  anScore :: int

definition analyzePattern :: "GameState \<Rightarrow> int \<Rightarrow> int \<Rightarrow> int \<Rightarrow> error + PatternAnalysis" where
  "analyzePattern st px py player =
     (case analyzeDirections st px py player directions of
        Inl e \<Rightarrow> Inl e
      | Inr patterns \<Rightarrow>
          (let patternCount =
                 map (\<lambda>t. (t, int (length (filter (\<lambda>p. patType p = t) patterns)))) patternKeys
           in Inr \<lparr> anPosition = (px, py), anPlayer = player, anPatterns = patterns,
                    anPatternCount = patternCount,
                    anScore = calculatePositionScore patternCount \<rparr>))"

definition evaluatePosition :: "GameState \<Rightarrow> int \<Rightarrow> int \<Rightarrow> int \<Rightarrow> error + int" where
  "evaluatePosition st px py player =
     (case analyzePattern st px py player of Inl e \<Rightarrow> Inl e | Inr analysis \<Rightarrow> Inr (anScore analysis))"

section \<open>What the claims speak about\<close>

text \<open>
  A state is well formed when its board is a square of \<^verbatim>\<open>boardSize\<close> rows of
  \<^verbatim>\<open>boardSize\<close> cells, as \<^verbatim>\<open>reset\<close> builds it.
\<close>

definition wfState :: "GameState \<Rightarrow> bool" where
  "wfState st \<longleftrightarrow>
     0 \<le> boardSize st \<and> length (board st) = nat (boardSize st) \<and>
     list_all (\<lambda>row. length row = nat (boardSize st)) (board st)"

text \<open>The cell \<open>(nx, ny)\<close> lies on the \<open>n\<close> by \<open>n\<close> board and holds a stone of \<open>player\<close>.\<close>

definition stoneAt :: "boardT \<Rightarrow> int \<Rightarrow> int \<Rightarrow> int \<Rightarrow> int \<Rightarrow> bool" where
  "stoneAt b n player nx ny \<longleftrightarrow>
     0 \<le> nx \<and> nx < n \<and> 0 \<le> ny \<and> ny < n \<and> b ! nat ny ! nat nx = Num player"

text \<open>
  In direction \<open>d\<close> there is a contiguous run of at least \<open>k\<close> stones of \<open>player\<close>
  through \<open>(px, py)\<close>: some \<open>k\<close> consecutive cells of the line, \<open>(px, py)\<close> among them,
  all hold a stone of \<open>player\<close>.
\<close>

definition runThrough :: "boardT \<Rightarrow> int \<Rightarrow> int \<Rightarrow> int \<Rightarrow> int \<Rightarrow> Direction \<Rightarrow> int \<Rightarrow> bool" where
  "runThrough b n player px py d k \<longleftrightarrow>
     list_ex (\<lambda>lo. list_all (\<lambda>i. stoneAt b n player (px + dx d * i) (py + dy d * i))
                             [lo..lo + k - 1])
             [1 - k..0]"

text \<open>The type the pattern matcher gives black at \<open>(px, py)\<close> in direction \<open>d\<close>, if any.\<close>

definition classifyBlack :: "boardT \<Rightarrow> int \<Rightarrow> int \<Rightarrow> Direction \<Rightarrow> PatternType option" where
  "classifyBlack b px py d =
     (case analyzeDirectionPatternOnBoard b px py 1 d of
        Inl e \<Rightarrow> None
      | Inr pat \<Rightarrow> map_option patType pat)"

section \<open>Example positions\<close>

text \<open>
  Black has played (0,0), (1,0), (2,0) and now (3,0) along the top edge; White has
  answered at (0,14), (1,14), (2,14).
\<close>

definition edgeFourOps :: "Op list" where
  "edgeFourOps =
     [ApplyOp 0 0 1 1, SwitchOp, ApplyOp 0 14 2 2, SwitchOp,
      ApplyOp 1 0 3 3, SwitchOp, ApplyOp 1 14 4 4, SwitchOp,
      ApplyOp 2 0 5 5, SwitchOp, ApplyOp 2 14 6 6, SwitchOp,
      ApplyOp 3 0 7 7]"

definition edgeFourState :: GameState where
  "edgeFourState = the (execOps newGameState edgeFourOps)"

text \<open>
  Black has stones at (4,7), (5,7), (6,7), (8,7), (9,7); White at (4,0), (5,0), (6,0),
  (8,0), (9,0); Black is to move and (7,7) is empty. A black stone there makes six in
  a row.
\<close>

definition sixOps :: "Op list" where
  "sixOps =
     [ApplyOp 4 7 1 1, SwitchOp, ApplyOp 4 0 2 2, SwitchOp,
      ApplyOp 5 7 3 3, SwitchOp, ApplyOp 5 0 4 4, SwitchOp,
      ApplyOp 6 7 5 5, SwitchOp, ApplyOp 6 0 6 6, SwitchOp,
      ApplyOp 8 7 7 7, SwitchOp, ApplyOp 8 0 8 8, SwitchOp,
      ApplyOp 9 7 9 9, SwitchOp, ApplyOp 9 0 10 10, SwitchOp]"

definition sixState :: GameState where
  "sixState = the (execOps newGameState sixOps)"

text \<open>
  What holds of the list \<^verbatim>\<open>availableMoves\<close> and the set \<^verbatim>\<open>searched\<close> throughout the
  loops of \<^verbatim>\<open>getAvailableMoves\<close>: the collected cells are pairwise different, each has
  its key in \<^verbatim>\<open>searched\<close>, lies on the board, is empty and is within distance
  \<open>r\<close> of a recorded move.
\<close>

definition nearHistory :: "GameState \<Rightarrow> int \<Rightarrow> int \<Rightarrow> int \<Rightarrow> bool" where
  "nearHistory st r px py \<longleftrightarrow>
     list_ex (\<lambda>m. max \<bar>px - move_x m\<bar> \<bar>py - move_y m\<bar> \<le> r) (moveHistory st)"

definition availInv :: "GameState \<Rightarrow> int \<Rightarrow> (int \<times> int) list \<times> string set \<Rightarrow> bool" where
  "availInv st r acc \<longleftrightarrow>
     distinct (fst acc) \<and>
     list_all (\<lambda>(px, py). cellKey px py \<in> snd acc \<and> isValidPosition st px py \<and>
                           getPiece st px py = Inr (Num 0) \<and> nearHistory st r px py) (fst acc)"

text \<open>
  Two positions in which Black has just played (7,7), with forbidden rules enabled. In
  \<open>crossStateA\<close> the horizontal run through (7,7) has exactly five stones, (5,7) to
  (9,7), and the vertical run six, (7,4) to (7,9). In \<open>crossStateB\<close> the horizontal
  run has six stones, (4,7) to (9,7), and the vertical run exactly five, (7,5) to (7,9).
  White's stones lie scattered on the rows 0 and 14.
\<close>

definition crossOpsA :: "Op list" where
  "crossOpsA =
     [ApplyOp 5 7 1 1, SwitchOp, ApplyOp 0 0 2 2, SwitchOp,
      ApplyOp 6 7 3 3, SwitchOp, ApplyOp 2 0 4 4, SwitchOp,
      ApplyOp 8 7 5 5, SwitchOp, ApplyOp 4 0 6 6, SwitchOp,
      ApplyOp 9 7 7 7, SwitchOp, ApplyOp 6 0 8 8, SwitchOp,
      ApplyOp 7 4 9 9, SwitchOp, ApplyOp 8 0 10 10, SwitchOp,
      ApplyOp 7 5 11 11, SwitchOp, ApplyOp 10 0 12 12, SwitchOp,
      ApplyOp 7 6 13 13, SwitchOp, ApplyOp 12 0 14 14, SwitchOp,
      ApplyOp 7 8 15 15, SwitchOp, ApplyOp 14 0 16 16, SwitchOp,
      ApplyOp 7 9 17 17, SwitchOp, ApplyOp 0 14 18 18, SwitchOp,
      ApplyOp 7 7 19 19]"

definition crossStateA :: GameState where
  "crossStateA = the (execOps newGameState crossOpsA)"

definition crossOpsB :: "Op list" where
  "crossOpsB =
     [ApplyOp 4 7 1 1, SwitchOp, ApplyOp 0 0 2 2, SwitchOp,
      ApplyOp 5 7 3 3, SwitchOp, ApplyOp 2 0 4 4, SwitchOp,
      ApplyOp 6 7 5 5, SwitchOp, ApplyOp 4 0 6 6, SwitchOp,
      ApplyOp 8 7 7 7, SwitchOp, ApplyOp 6 0 8 8, SwitchOp,
      ApplyOp 9 7 9 9, SwitchOp, ApplyOp 8 0 10 10, SwitchOp,
      ApplyOp 7 5 11 11, SwitchOp, ApplyOp 10 0 12 12, SwitchOp,
      ApplyOp 7 6 13 13, SwitchOp, ApplyOp 12 0 14 14, SwitchOp,
      ApplyOp 7 8 15 15, SwitchOp, ApplyOp 14 0 16 16, SwitchOp,
      ApplyOp 7 9 17 17, SwitchOp, ApplyOp 0 14 18 18, SwitchOp,
      ApplyOp 7 7 19 19]"

definition crossStateB :: GameState where
  "crossStateB = the (execOps newGameState crossOpsB)"

text \<open>
  \<^verbatim>\<open>updateSettings(newSettings)\<close> for the two settings modelled here: each is assigned
  when present, and a new board size (truthy and different from the current one) sets
  \<^verbatim>\<open>boardSize\<close> and resets the game.
\<close>

definition updateSettings :: "GameState \<Rightarrow> bool option \<Rightarrow> int option \<Rightarrow> error + GameState" where
  "updateSettings st newForbiddenRules newBoardSize =
     (let s1 = (case newForbiddenRules of None \<Rightarrow> settings st
                | Some fr \<Rightarrow> (settings st)\<lparr> forbiddenRules := fr \<rparr>);
          s2 = (case newBoardSize of None \<Rightarrow> s1 | Some n \<Rightarrow> s1\<lparr> settingsBoardSize := n \<rparr>);
          st1 = st\<lparr> settings := s2 \<rparr>
      in case newBoardSize of
           None \<Rightarrow> Inr st1
         | Some n \<Rightarrow> if n \<noteq> 0 \<and> n \<noteq> boardSize st1 then reset (st1\<lparr> boardSize := n \<rparr>) else Inr st1)"

text \<open>
  A 19 by 19 game (\<^verbatim>\<open>updateSettings({boardSize: 19})\<close> on a new game). Black has
  stones at (12,0), (13,0), (14,0), (16,0), (17,0), White at (0,18), (2,18), (4,18),
  (6,18), (8,18); Black is to move and (15,0) is empty. A black stone there makes six in
  a row.
\<close>

definition bigOps :: "Op list" where
  "bigOps =
     [ApplyOp 12 0 1 1, SwitchOp, ApplyOp 0 18 2 2, SwitchOp,
      ApplyOp 13 0 3 3, SwitchOp, ApplyOp 2 18 4 4, SwitchOp,
      ApplyOp 14 0 5 5, SwitchOp, ApplyOp 4 18 6 6, SwitchOp,
      ApplyOp 16 0 7 7, SwitchOp, ApplyOp 6 18 8 8, SwitchOp,
      ApplyOp 17 0 9 9, SwitchOp, ApplyOp 8 18 10 10, SwitchOp]"

definition bigState :: GameState where
  "bigState = the (execOps (projr (updateSettings newGameState None (Some 19))) bigOps)"

text \<open>A board of 15 rows of 15 cells, the size the literal bounds of the rule engine assume.\<close>

definition board15 :: "boardT \<Rightarrow> bool" where
  "board15 b \<longleftrightarrow> length b = 15 \<and> list_all (\<lambda>row. length row = 15) b"

section \<open>Game states as objects in a store\<close>

text \<open>
  The AI engine works on references: it receives the caller's \<^verbatim>\<open>GameState\<close> object,
  clones it, and calls mutating methods on the clones. Whether the caller's object is
  affected depends on which arrays the clone shares with it, so here the objects and
  their arrays live in a store. A reference is an index into one of four heaps: the row
  arrays, the board arrays (each the list of the references of its rows), the
  move-history arrays, and the \<^verbatim>\<open>GameState\<close> objects. \<open>oLogger\<close> tells whether the
  object has a \<^verbatim>\<open>logger\<close> property: the constructor sets one, a snapshot has none.
  The settings are copied by value; nothing in the engine assigns to them.
\<close>

record GObj =
  oBoard :: nat
  oCurrentPlayer :: int
  oMoveHistory :: nat
  oGameStatus :: string
  oWinner :: "int option"
  oStartTime :: "int option"
  oEndTime :: "int option"
  oMoveCount :: int
  oSettings :: Settings
  oBoardSize :: int
  oLogger :: bool

record Store =
  rowHeap :: "jsval list list"
  boardHeap :: "nat list list"
  histHeap :: "Move list list"
  objHeap :: "GObj list"

text \<open>The state an object stands for: its fields, with the arrays read through the store.\<close>

definition stateOf :: "Store \<Rightarrow> nat \<Rightarrow> GameState" where
  "stateOf s g =
     (let ob = objHeap s ! g in
      \<lparr> board = map (\<lambda>r. rowHeap s ! r) (boardHeap s ! oBoard ob),
        currentPlayer = oCurrentPlayer ob,
        moveHistory = histHeap s ! oMoveHistory ob,
        gameStatus = oGameStatus ob,
        winner = oWinner ob,
        startTime = oStartTime ob,
        endTime = oEndTime ob,
        moveCount = oMoveCount ob,
        settings = oSettings ob,
        boardSize = oBoardSize ob \<rparr>)"

text \<open>
  \<^verbatim>\<open>getSnapshot()\<close>: \<^verbatim>\<open>this.board.map(row => [...row])\<close> allocates a new array for every
  row and a new board array, \<^verbatim>\<open>[...this.moveHistory]\<close> a new history array; the other
  fields are copied. The result is the snapshot object (which has no logger) and the
  store with the new arrays.
\<close>

definition getSnapshot :: "Store \<Rightarrow> nat \<Rightarrow> GObj \<times> Store" where
  "getSnapshot s g =
     (let ob = objHeap s ! g;
          rowRefs = boardHeap s ! oBoard ob;
          newRows = map (\<lambda>r. rowHeap s ! r) rowRefs;
          newRowRefs = [length (rowHeap s) ..< length (rowHeap s) + length rowRefs];
          newHistory = histHeap s ! oMoveHistory ob
      in (ob\<lparr> oBoard := length (boardHeap s), oMoveHistory := length (histHeap s),
               oLogger := False \<rparr>,
          s\<lparr> rowHeap := rowHeap s @ newRows,
             boardHeap := boardHeap s @ [newRowRefs],
             histHeap := histHeap s @ [newHistory] \<rparr>))"

text \<open>
  \<^verbatim>\<open>_createTempState(gameState)\<close>: a new object with the prototype of \<^verbatim>\<open>GameState\<close>
  receives the fields of a snapshot (and the event bus). It is the new last object of
  the store.
\<close>

definition createTempState :: "Store \<Rightarrow> nat \<Rightarrow> nat \<times> Store" where
  "createTempState s g =
     (case getSnapshot s g of
        (snap, s1) \<Rightarrow> (length (objHeap s1), s1\<lparr> objHeap := objHeap s1 @ [snap] \<rparr>))"

text \<open>
  \<^verbatim>\<open>applyMove\<close> called on the object \<open>t\<close> of the store. The checks read the state of
  the object; the assignments go to the row array \<^verbatim>\<open>this.board[y]\<close>, to the history
  array and to the fields of the object. On an object without a logger each
  \<^verbatim>\<open>this.logger\<close> call throws a \<^verbatim>\<open>TypeError\<close>: before the intended \<^verbatim>\<open>throw\<close> in the
  three rejections, and after the assignments on the path that would succeed.
\<close>

definition applyMoveH :: "Store \<Rightarrow> nat \<Rightarrow> int \<Rightarrow> int \<Rightarrow> int \<Rightarrow> int \<Rightarrow> (error + Move) \<times> Store" where
  "applyMoveH s t px py tMove tStart =
     (let ob = objHeap s ! t; st = stateOf s t;
          thrown = (\<lambda>e. if oLogger ob then e else TypeError)
      in
      if \<not> isValidPosition st px py
      then (Inl (thrown (Error (''Invalid position: '' @ posText px py))), s)
      else case boardAt (board st) px py of
        Inl e \<Rightarrow> (Inl e, s)
      | Inr v \<Rightarrow>
          if v \<noteq> Num 0 then (Inl (thrown (Error (''Position occupied: '' @ posText px py))), s)
          else if gameStatus st \<noteq> ''playing'' \<and> gameStatus st \<noteq> ''ready''
          then (Inl (thrown (Error (''Cannot apply move in status: '' @ gameStatus st))), s)
          else
            let move = \<lparr> move_x = px, move_y = py, move_player = currentPlayer st,
                         move_step = moveCount st + 1, move_timestamp = tMove,
                         move_number = int (length (moveHistory st)) + 1 \<rparr>;
                rowRef = boardHeap s ! oBoard ob ! nat py;
                ob1 = ob\<lparr> oMoveCount := oMoveCount ob + 1 \<rparr>;
                ob2 = (if oGameStatus ob1 = ''ready''
                       then ob1\<lparr> oGameStatus := ''playing'', oStartTime := Some tStart \<rparr>
                       else ob1);
                s1 = s\<lparr> rowHeap := (rowHeap s)[rowRef := rowSet (rowHeap s ! rowRef) px
                                                       (Num (currentPlayer st))],
                        histHeap := (histHeap s)[oMoveHistory ob :=
                                                   histHeap s ! oMoveHistory ob @ [move]],
                        objHeap := (objHeap s)[t := ob2] \<rparr>
            in (if oLogger ob then Inr move else Inl TypeError, s1))"

text \<open>The assignment \<^verbatim>\<open>tempState.currentPlayer = p\<close>.\<close>

definition setCurrentPlayer :: "Store \<Rightarrow> nat \<Rightarrow> int \<Rightarrow> Store" where
  "setCurrentPlayer s t p = s\<lparr> objHeap := (objHeap s)[t := (objHeap s ! t)\<lparr> oCurrentPlayer := p \<rparr>] \<rparr>"

text \<open>
  A store in which one object is a new game, as the constructor of \<^verbatim>\<open>GameState\<close>
  leaves it: object 0 with board array 0, its rows the row arrays 0 to 14, and history
  array 0.
\<close>

definition newGameStore :: Store where
  "newGameStore =
     \<lparr> rowHeap = replicate 15 (replicate 15 (Num 0)),
       boardHeap = [[0 ..< 15]],
       histHeap = [[]],
       objHeap = [\<lparr> oBoard = 0, oCurrentPlayer = 1, oMoveHistory = 0, oGameStatus = ''ready'',
                    oWinner = None, oStartTime = None, oEndTime = None, oMoveCount = 0,
                    oSettings = \<lparr> forbiddenRules = True, firstPlayer = 1, settingsBoardSize = 15 \<rparr>,
                    oBoardSize = 15, oLogger = True \<rparr>] \<rparr>"

section \<open>AIEngine\<close>

text \<open>
  The engine reads the clock (\<^verbatim>\<open>performance.now()\<close>, \<^verbatim>\<open>Date.now()\<close>) and draws random
  numbers. The model takes the values of these readings as given: \<open>clock env k\<close> is
  the \<open>k\<close>-th reading of \<^verbatim>\<open>performance.now()\<close>, and likewise for the other two; the
  state counts the readings made so far. Waiting (\<^verbatim>\<open>await\<close>, \<^verbatim>\<open>setTimeout\<close>), logging,
  events and the optional progress callback change nothing in the store and are left
  out; an \<^verbatim>\<open>async\<close> function is run as the sequence of its steps.
\<close>

record Env =
  clock :: "nat \<Rightarrow> rat"
  dateNow :: "nat \<Rightarrow> int"
  randomValue :: "nat \<Rightarrow> rat"

record AI =
  heap :: Store
  clockReads :: nat
  dateReads :: nat
  randomDraws :: nat
  isThinking :: bool

type_synonym 'a aiM = "AI \<Rightarrow> (error + 'a) \<times> AI"

definition returnM :: "'a \<Rightarrow> 'a aiM" where
  "returnM v = (\<lambda>a. (Inr v, a))"

definition throwM :: "error \<Rightarrow> 'a aiM" where
  "throwM e = (\<lambda>a. (Inl e, a))"

definition bindM :: "'a aiM \<Rightarrow> ('a \<Rightarrow> 'b aiM) \<Rightarrow> 'b aiM" where
  "bindM m f = (\<lambda>a. case m a of (Inl e, a') \<Rightarrow> (Inl e, a') | (Inr v, a') \<Rightarrow> f v a')"

definition nowM :: "Env \<Rightarrow> rat aiM" where
  "nowM env = (\<lambda>a. (Inr (clock env (clockReads a)), a\<lparr> clockReads := Suc (clockReads a) \<rparr>))"

definition dateNowM :: "Env \<Rightarrow> int aiM" where
  "dateNowM env = (\<lambda>a. (Inr (dateNow env (dateReads a)), a\<lparr> dateReads := Suc (dateReads a) \<rparr>))"

definition randomM :: "Env \<Rightarrow> rat aiM" where
  "randomM env = (\<lambda>a. (Inr (randomValue env (randomDraws a)), a\<lparr> randomDraws := Suc (randomDraws a) \<rparr>))"

text \<open>A call into the rule engine, or any reading of the object \<open>g\<close>, at the current store.\<close>

definition ruleM :: "nat \<Rightarrow> (GameState \<Rightarrow> error + 'a) \<Rightarrow> 'a aiM" where
  "ruleM g f = (\<lambda>a. (f (stateOf (heap a) g), a))"

definition createTempStateM :: "nat \<Rightarrow> nat aiM" where
  "createTempStateM g =
     (\<lambda>a. case createTempState (heap a) g of (t, s') \<Rightarrow> (Inr t, a\<lparr> heap := s' \<rparr>))"

text \<open>\<^verbatim>\<open>tempState.applyMove(x, y, {silent: true})\<close>, with its two readings of \<^verbatim>\<open>Date.now()\<close>.\<close>

definition applyMoveM :: "Env \<Rightarrow> nat \<Rightarrow> int \<Rightarrow> int \<Rightarrow> Move aiM" where
  "applyMoveM env t px py =
     bindM (dateNowM env) (\<lambda>tMove.
     bindM (dateNowM env) (\<lambda>tStart.
       (\<lambda>a. case applyMoveH (heap a) t px py tMove tStart of
               (r, s') \<Rightarrow> (r, a\<lparr> heap := s' \<rparr>))))"

definition setCurrentPlayerM :: "nat \<Rightarrow> int \<Rightarrow> unit aiM" where
  "setCurrentPlayerM t p = (\<lambda>a. (Inr (), a\<lparr> heap := setCurrentPlayer (heap a) t p \<rparr>))"

text \<open>\<^verbatim>\<open>xs.map(f)\<close> and a \<^verbatim>\<open>for\<close> loop with an accumulator, for bodies that act on the store.\<close>

fun mapM :: "('a \<Rightarrow> 'b aiM) \<Rightarrow> 'a list \<Rightarrow> 'b list aiM" where
  "mapM f [] = returnM []"
| "mapM f (v # vs) = bindM (f v) (\<lambda>w. bindM (mapM f vs) (\<lambda>ws. returnM (w # ws)))"

fun foldM :: "('a \<Rightarrow> 's \<Rightarrow> 's aiM) \<Rightarrow> 'a list \<Rightarrow> 's \<Rightarrow> 's aiM" where
  "foldM body [] acc = returnM acc"
| "foldM body (v # vs) acc = bindM (body v acc) (\<lambda>acc'. foldM body vs acc')"

subsection \<open>Scores\<close>

text \<open>
  A score is a JavaScript number: \<^verbatim>\<open>-Infinity\<close>, \<^verbatim>\<open>Infinity\<close> or a finite value. Finite
  values are kept exact here (the factor \<^verbatim>\<open>0.8\<close> is \<open>4/5\<close>), where JavaScript rounds to
  a double.
\<close>

datatype Score = NegInf | Fin rat | PosInf

fun scoreLess :: "Score \<Rightarrow> Score \<Rightarrow> bool" where
  "scoreLess NegInf NegInf = False"
| "scoreLess NegInf v = True"
| "scoreLess (Fin v) (Fin w) = (v < w)"
| "scoreLess (Fin v) PosInf = True"
| "scoreLess v w = False"

definition scoreMax :: "Score \<Rightarrow> Score \<Rightarrow> Score" where
  "scoreMax v w = (if scoreLess v w then w else v)"

definition scoreMin :: "Score \<Rightarrow> Score \<Rightarrow> Score" where
  "scoreMin v w = (if scoreLess w v then w else v)"

subsection \<open>Position evaluation\<close>

text \<open>\<^verbatim>\<open>_evaluateBasicPosition(gameState, ruleEngine, x, y)\<close>.\<close>

definition evaluateBasicPosition :: "nat \<Rightarrow> int \<Rightarrow> int \<Rightarrow> rat aiM" where
  "evaluateBasicPosition g px py =
     bindM (ruleM g (\<lambda>st. Inr (currentPlayer st))) (\<lambda>player.
       let opponent = (if player = 1 then 2 else 1) in
       bindM (ruleM g (\<lambda>st. evaluatePosition st px py player)) (\<lambda>myScore.
       bindM (createTempStateM g) (\<lambda>tempState.
       bindM (setCurrentPlayerM tempState opponent) (\<lambda>u.
       bindM (ruleM tempState (\<lambda>st. evaluatePosition st px py opponent)) (\<lambda>opponentScore.
         returnM (of_int myScore + of_int opponentScore * (4 / 5)))))))"

text \<open>
  The loop of \<^verbatim>\<open>_evaluatePosition\<close> over the cells, \<open>x\<close> outside and \<open>y\<close> inside. Every
  cell of a board built by \<^verbatim>\<open>reset\<close> and \<^verbatim>\<open>applyMove\<close> is a number; on any other
  value the model stops with an error.
\<close>

definition evaluateCell :: "GameState \<Rightarrow> int \<Rightarrow> int \<Rightarrow> int \<Rightarrow> int \<Rightarrow> error + int" where
  "evaluateCell st player cx cy totalScore =
     (case getPiece st cx cy of
        Inl e \<Rightarrow> Inl e
      | Inr (Num piece) \<Rightarrow>
          if piece = 0 then Inr totalScore
          else (case analyzePattern st cx cy piece of
                  Inl e \<Rightarrow> Inl e
                | Inr analysis \<Rightarrow>
                    Inr (totalScore + anScore analysis * (if piece = player then 1 else - 1)))
      | Inr v \<Rightarrow> Inl TypeError)"

text \<open>\<^verbatim>\<open>_evaluatePosition(gameState, ruleEngine, lastX, lastY)\<close>.\<close>

definition evaluatePositionFull :: "GameState \<Rightarrow> int \<Rightarrow> int \<Rightarrow> error + int" where
  "evaluatePositionFull st lastX lastY =
     (let player = currentPlayer st in
      if winner st = Some player then Inr 100000
      else if winner st = Some (if player = 1 then 2 else 1) then Inr (- 100000)
      else case forEach (\<lambda>cx. forEach (\<lambda>cy. evaluateCell st player cx cy) [0..boardSize st - 1])
                  [0..boardSize st - 1] 0 of
             Inl e \<Rightarrow> Inl e
           | Inr totalScore \<Rightarrow>
               (let centerDistance = \<bar>lastX - 7\<bar> + \<bar>lastY - 7\<bar>
                in Inr (totalScore + (14 - centerDistance) * 10)))"

subsection \<open>Minimax\<close>

record SearchResult =
  srPosition :: "(int \<times> int) option"
  srScore :: Score
  srNodes :: int

record SearchLoop =
  slAlpha :: Score
  slBeta :: Score
  slBestMove :: "(int \<times> int) option"
  slBestScore :: Score
  slNodes :: int

text \<open>
  \<^verbatim>\<open>_minimaxSearch\<close> and the loop over its sorted candidates. The depth is a natural
  number: the engine starts the search with depth 2 or 3 and each level passes
  \<^verbatim>\<open>depth - 1\<close> only when \<^verbatim>\<open>depth\<close> is not 0. \<^verbatim>\<open>Array.prototype.sort\<close> is stable, as
  is \<open>sort_key\<close>.
\<close>

function minimaxSearch ::
    "Env \<Rightarrow> nat \<Rightarrow> nat \<Rightarrow> bool \<Rightarrow> Score \<Rightarrow> Score \<Rightarrow> rat \<Rightarrow> SearchResult aiM"
  and minimaxLoop ::
    "Env \<Rightarrow> nat \<Rightarrow> nat \<Rightarrow> bool \<Rightarrow> rat \<Rightarrow> rat \<Rightarrow> (int \<times> int \<times> rat) list \<Rightarrow> SearchLoop \<Rightarrow> SearchLoop aiM"
where
  "minimaxSearch env g depth isMaximizing alpha beta timeLimit =
     bindM (nowM env) (\<lambda>started.
     bindM (ruleM g (\<lambda>st. getAvailableMoves st 2 False)) (\<lambda>availableMoves.
       if length availableMoves = 0
       then returnM \<lparr> srPosition = None, srScore = Fin 0, srNodes = 0 \<rparr>
       else
         bindM (mapM (\<lambda>(mx, my). bindM (evaluateBasicPosition g mx my)
                                    (\<lambda>sc. returnM (mx, my, sc))) availableMoves) (\<lambda>scoredMoves.
         bindM (minimaxLoop env g depth isMaximizing started timeLimit
                  (if isMaximizing then sort_key (\<lambda>(mx, my, sc). - sc) scoredMoves
                   else sort_key (\<lambda>(mx, my, sc). sc) scoredMoves)
                  \<lparr> slAlpha = alpha, slBeta = beta, slBestMove = None,
                    slBestScore = (if isMaximizing then NegInf else PosInf), slNodes = 0 \<rparr>)
           (\<lambda>fin. returnM \<lparr> srPosition = slBestMove fin, srScore = slBestScore fin,
                            srNodes = slNodes fin \<rparr>))))"
| "minimaxLoop env g depth isMaximizing started timeLimit [] acc = returnM acc"
| "minimaxLoop env g depth isMaximizing started timeLimit (move # rest) acc =
     (case move of (mx, my, sc) \<Rightarrow>
     bindM (nowM env) (\<lambda>tNow.
       if tNow - started > timeLimit then returnM acc
       else
         bindM (createTempStateM g) (\<lambda>tempState.
         bindM (applyMoveM env tempState mx my) (\<lambda>applied.
         bindM (case depth of
                  0 \<Rightarrow> bindM (ruleM tempState (\<lambda>st. evaluatePositionFull st mx my))
                         (\<lambda>v. returnM (Fin (of_int v), 0))
                | Suc d \<Rightarrow>
                    bindM (ruleM tempState (\<lambda>st. Inr (gameStatus st))) (\<lambda>status.
                      if status = ''finished''
                      then bindM (ruleM tempState (\<lambda>st. evaluatePositionFull st mx my))
                             (\<lambda>v. returnM (Fin (of_int v), 0))
                      else bindM (minimaxSearch env tempState d (\<not> isMaximizing)
                                    (slAlpha acc) (slBeta acc) timeLimit)
                             (\<lambda>res. returnM (srScore res, srNodes res))))
           (\<lambda>(score, below).
              let nodes = slNodes acc + 1 + below;
                  acc' = (if isMaximizing
                          then (if scoreLess (slBestScore acc) score
                                then acc\<lparr> slBestMove := Some (mx, my), slBestScore := score \<rparr>
                                else acc)\<lparr> slAlpha := scoreMax (slAlpha acc) score, slNodes := nodes \<rparr>
                          else (if scoreLess score (slBestScore acc)
                                then acc\<lparr> slBestMove := Some (mx, my), slBestScore := score \<rparr>
                                else acc)\<lparr> slBeta := scoreMin (slBeta acc) score, slNodes := nodes \<rparr>)
              in if \<not> scoreLess (slAlpha acc') (slBeta acc') then returnM acc'
                 else minimaxLoop env g depth isMaximizing started timeLimit rest acc')))))"
  by pat_completeness auto
termination
  by (relation "inv_image (less_than <*lex*> less_than <*lex*> less_than)
        (\<lambda>v. case v of
           Inl (env, g, depth, isMaximizing, alpha, beta, timeLimit) \<Rightarrow> (depth, Suc 0, 0)
         | Inr (env, g, depth, isMaximizing, started, timeLimit, moves, acc) \<Rightarrow>
             (depth, 0, length moves))") auto

declare minimaxSearch.simps [simp del] minimaxLoop.simps [simp del]

subsection \<open>Threats\<close>

record Threat =
  thPosition :: "int \<times> int"
  thScore :: int
  thIsWin :: bool

record Threats =
  critical :: "Threat list"
  serious :: "Threat list"
  moderate :: "Threat list"

definition patternCountOf :: "PatternAnalysis \<Rightarrow> PatternType \<Rightarrow> int" where
  "patternCountOf analysis t = (case map_of (anPatternCount analysis) t of None \<Rightarrow> 0 | Some c \<Rightarrow> c)"

text \<open>The body of the loop of \<^verbatim>\<open>_analyzeThreats\<close> for one candidate move.\<close>

definition analyzeThreat :: "Env \<Rightarrow> nat \<Rightarrow> int \<times> int \<Rightarrow> Threats \<Rightarrow> Threats aiM" where
  "analyzeThreat env g move threats =
     (case move of (mx, my) \<Rightarrow>
     bindM (createTempStateM g) (\<lambda>tempState.
     bindM (ruleM g (\<lambda>st. Inr (if currentPlayer st = 1 then 2 else 1))) (\<lambda>opponent.
     bindM (setCurrentPlayerM tempState opponent) (\<lambda>u.
     bindM (applyMoveM env tempState mx my) (\<lambda>applied.
     bindM (ruleM tempState (\<lambda>st. checkWin st mx my (Some opponent))) (\<lambda>winCheck.
     bindM (ruleM tempState (\<lambda>st. analyzePattern st mx my opponent)) (\<lambda>analysis.
       let threat = \<lparr> thPosition = (mx, my), thScore = anScore analysis, thIsWin = isWin winCheck \<rparr>
       in if isWin winCheck then returnM (threats\<lparr> critical := critical threats @ [threat] \<rparr>)
          else if patternCountOf analysis LiveFour > 0 \<or> patternCountOf analysis RushFour > 1
          then returnM (threats\<lparr> serious := serious threats @ [threat] \<rparr>)
          else if patternCountOf analysis LiveThree > 1
          then returnM (threats\<lparr> moderate := moderate threats @ [threat] \<rparr>)
          else returnM threats)))))))"

definition analyzeThreats :: "Env \<Rightarrow> nat \<Rightarrow> Threats aiM" where
  "analyzeThreats env g =
     bindM (ruleM g (\<lambda>st. getAvailableMoves st 2 False)) (\<lambda>availableMoves.
       foldM (analyzeThreat env g) availableMoves \<lparr> critical = [], serious = [], moderate = [] \<rparr>)"

fun pairSequences :: "(int \<times> int) list \<Rightarrow> (int \<times> int) list list" where
  "pairSequences [] = []"
| "pairSequences (p # ps) = map (\<lambda>q. [p, q]) ps @ pairSequences ps"

definition generateThreatSequences :: "Threats \<Rightarrow> (int \<times> int) list list" where
  "generateThreatSequences threats =
     map (\<lambda>threat. [thPosition threat]) (critical threats) @
     pairSequences (map thPosition (serious threats))"

text \<open>
  \<^verbatim>\<open>_evaluateSequence\<close>: the loop carries the current \<^verbatim>\<open>tempState\<close>, which starts as the
  given game state and is replaced by a clone of itself before each move.
\<close>

definition evaluateSequence :: "Env \<Rightarrow> nat \<Rightarrow> (int \<times> int) list \<Rightarrow> int aiM" where
  "evaluateSequence env g sequence =
     bindM (foldM (\<lambda>(mx, my) (cur, totalScore).
                     bindM (createTempStateM cur) (\<lambda>tempState.
                     bindM (applyMoveM env tempState mx my) (\<lambda>applied.
                     bindM (ruleM tempState (\<lambda>st. analyzePattern st mx my (currentPlayer st)))
                       (\<lambda>analysis. returnM (tempState, totalScore + anScore analysis)))))
                  sequence (g, 0))
       (\<lambda>(cur, totalScore). returnM totalScore)"

text \<open>The loop of \<^verbatim>\<open>_threatSpaceSearch\<close> over the sequences; every sequence has a first move.\<close>

fun threatLoop ::
  "Env \<Rightarrow> nat \<Rightarrow> rat \<Rightarrow> rat \<Rightarrow> (int \<times> int) list list \<Rightarrow> (int \<times> int) option \<times> Score \<times> int \<Rightarrow>
     ((int \<times> int) option \<times> Score \<times> int) aiM" where
  "threatLoop env g started timeLimit [] acc = returnM acc"
| "threatLoop env g started timeLimit (sequence # rest) acc =
     (case acc of (bestMove, bestScore, nodes) \<Rightarrow>
     bindM (nowM env) (\<lambda>tNow.
       if tNow - started > timeLimit then returnM acc
       else bindM (evaluateSequence env g sequence) (\<lambda>v.
              threatLoop env g started timeLimit rest
                (if scoreLess bestScore (Fin (of_int v))
                 then (Some (hd sequence), Fin (of_int v), nodes + 1)
                 else (bestMove, bestScore, nodes + 1)))))"

definition threatSpaceSearch :: "Env \<Rightarrow> nat \<Rightarrow> rat \<Rightarrow> SearchResult aiM" where
  "threatSpaceSearch env g timeLimit =
     bindM (nowM env) (\<lambda>started.
     bindM (analyzeThreats env g) (\<lambda>threats.
     bindM (threatLoop env g started timeLimit (generateThreatSequences threats) (None, NegInf, 0))
       (\<lambda>(bestMove, bestScore, nodes).
          returnM \<lparr> srPosition = bestMove, srScore = bestScore, srNodes = nodes \<rparr>)))"

subsection \<open>The four strategies and \<^verbatim>\<open>calculateBestMove\<close>\<close>

record BestMove =
  bmPosition :: "(int \<times> int) option"
  bmScore :: Score
  bmStrategy :: string

text \<open>
  \<^verbatim>\<open>_beginnerStrategy\<close>. \<^verbatim>\<open>_simulateThinking\<close> draws one random number for its delay.
  The index \<^verbatim>\<open>Math.floor(Math.random() * topMoves.length)\<close> selects the move; outside
  the list the element is \<^verbatim>\<open>undefined\<close> and reading its \<^verbatim>\<open>x\<close> throws.
\<close>

definition beginnerStrategy :: "Env \<Rightarrow> nat \<Rightarrow> BestMove aiM" where
  "beginnerStrategy env g =
     bindM (ruleM g (\<lambda>st. getAvailableMoves st 2 False)) (\<lambda>availableMoves.
       if length availableMoves = 0 then throwM (Error ''No available moves'')
       else
         bindM (randomM env) (\<lambda>delay.
         bindM (mapM (\<lambda>(mx, my). bindM (evaluateBasicPosition g mx my)
                                    (\<lambda>sc. returnM (mx, my, sc))) availableMoves) (\<lambda>scoredMoves.
         bindM (randomM env) (\<lambda>r.
           let sorted = sort_key (\<lambda>(mx, my, sc). - sc) scoredMoves;
               topMoves = take ((length sorted + 1) div 2) sorted;
               i = \<lfloor>r * of_nat (length topMoves)\<rfloor>
           in if 0 \<le> i \<and> i < int (length topMoves)
              then (case topMoves ! nat i of
                      (mx, my, sc) \<Rightarrow>
                        returnM \<lparr> bmPosition = Some (mx, my), bmScore = Fin sc,
                                  bmStrategy = ''BEGINNER'' \<rparr>)
              else throwM TypeError))))"

definition normalStrategy :: "Env \<Rightarrow> nat \<Rightarrow> BestMove aiM" where
  "normalStrategy env g =
     bindM (minimaxSearch env g 2 True NegInf PosInf 1000) (\<lambda>result.
       returnM \<lparr> bmPosition = srPosition result, bmScore = srScore result,
                 bmStrategy = ''NORMAL'' \<rparr>)"

definition hardStrategy :: "Env \<Rightarrow> nat \<Rightarrow> BestMove aiM" where
  "hardStrategy env g =
     bindM (analyzeThreats env g) (\<lambda>threats.
       if length (critical threats) > 0
       then returnM \<lparr> bmPosition = Some (thPosition (critical threats ! 0)),
                      bmScore = Fin (of_int (thScore (critical threats ! 0))),
                      bmStrategy = ''HARD'' \<rparr>
       else bindM (minimaxSearch env g 3 True NegInf PosInf 2000) (\<lambda>result.
              returnM \<lparr> bmPosition = srPosition result, bmScore = srScore result,
                        bmStrategy = ''HARD'' \<rparr>))"

definition hellStrategy :: "Env \<Rightarrow> nat \<Rightarrow> BestMove aiM" where
  "hellStrategy env g =
     bindM (threatSpaceSearch env g 2400) (\<lambda>result.
       returnM \<lparr> bmPosition = srPosition result, bmScore = srScore result,
                 bmStrategy = ''HELL'' \<rparr>)"

text \<open>
  \<^verbatim>\<open>calculateBestMove(gameState, ruleEngine, difficulty)\<close>. A call while the engine is
  thinking throws at once. Otherwise \<^verbatim>\<open>currentThinking\<close> receives a snapshot of the
  game state, the strategy of the difficulty runs, and on both ways out the clock is read
  once more and \<^verbatim>\<open>finally\<close> clears \<^verbatim>\<open>isThinking\<close>.
\<close>

definition calculateBestMove :: "Env \<Rightarrow> nat \<Rightarrow> string \<Rightarrow> BestMove aiM" where
  "calculateBestMove env g difficulty =
     bindM (nowM env) (\<lambda>started a.
       if isThinking a then (Inl (Error ''AI is already thinking''), a)
       else
         let a1 = a\<lparr> heap := snd (getSnapshot (heap a) g), isThinking := True \<rparr>;
             strategy = (if difficulty = ''BEGINNER'' then beginnerStrategy env g
                         else if difficulty = ''NORMAL'' then normalStrategy env g
                         else if difficulty = ''HARD'' then hardStrategy env g
                         else if difficulty = ''HELL'' then hellStrategy env g
                         else throwM (Error (''Unknown difficulty: '' @ difficulty)))
         in case strategy a1 of
              (result, a2) \<Rightarrow>
                (case nowM env a2 of (finished, a3) \<Rightarrow> (result, a3\<lparr> isThinking := False \<rparr>)))"

text \<open>
  A clock that advances one millisecond per reading and a random source that returns
  one half.
\<close>

definition demoEnv :: Env where
  "demoEnv = \<lparr> clock = (\<lambda>k. of_nat k), dateNow = (\<lambda>k. int k), randomValue = (\<lambda>k. 1 / 2) \<rparr>"

definition demoAI :: AI where
  "demoAI = \<lparr> heap = newGameStore, clockReads = 0, dateReads = 0, randomDraws = 0,
               isThinking = False \<rparr>"

section \<open>What a computation leaves untouched\<close>

text \<open>
  The store \<open>s\<close> extends the store \<open>b\<close>: every heap of \<open>s\<close> begins with the
  corresponding heap of \<open>b\<close>, so every array and object of \<open>b\<close> is still there with the
  same contents.
\<close>

definition extends :: "Store \<Rightarrow> Store \<Rightarrow> bool" where
  "extends b s \<longleftrightarrow>
     prefix (rowHeap b) (rowHeap s) \<and> prefix (boardHeap b) (boardHeap s) \<and>
     prefix (histHeap b) (histHeap s) \<and> prefix (objHeap b) (objHeap s)"

text \<open>
  The object \<open>t\<close> of \<open>s\<close> was created after \<open>b\<close>: it, its board array, the rows of that
  array and its history array are all beyond the heaps of \<open>b\<close>.
\<close>

definition tempAbove :: "Store \<Rightarrow> Store \<Rightarrow> nat \<Rightarrow> bool" where
  "tempAbove b s t \<longleftrightarrow>
     length (objHeap b) \<le> t \<and> t < length (objHeap s) \<and>
     length (boardHeap b) \<le> oBoard (objHeap s ! t) \<and>
     oBoard (objHeap s ! t) < length (boardHeap s) \<and>
     list_all (\<lambda>r. length (rowHeap b) \<le> r) (boardHeap s ! oBoard (objHeap s ! t)) \<and>
     length (histHeap b) \<le> oMoveHistory (objHeap s ! t)"

definition goodAt :: "Store \<Rightarrow> nat set \<Rightarrow> Store \<Rightarrow> bool" where
  "goodAt b T s \<longleftrightarrow> extends b s \<and> (\<forall>t \<in> T. tempAbove b s t)"

text \<open>
  The computation \<open>m\<close> keeps the store \<open>b\<close> intact, given that the objects in \<open>T\<close> were
  created after \<open>b\<close>.
\<close>

definition keeps :: "Store \<Rightarrow> nat set \<Rightarrow> 'a aiM \<Rightarrow> bool" where
  "keeps b T m \<longleftrightarrow>
     (\<forall>a r a'. goodAt b T (heap a) \<longrightarrow> m a = (r, a') \<longrightarrow> goodAt b T (heap a'))"

text \<open>The object \<open>g\<close> and its arrays are allocated in \<open>s\<close>.\<close>

definition allocated :: "Store \<Rightarrow> nat \<Rightarrow> bool" where
  "allocated s g \<longleftrightarrow>
     g < length (objHeap s) \<and> oBoard (objHeap s ! g) < length (boardHeap s) \<and>
     list_all (\<lambda>r. r < length (rowHeap s)) (boardHeap s ! oBoard (objHeap s ! g)) \<and>
     oMoveHistory (objHeap s ! g) < length (histHeap s)"

section \<open>Facts about array reads and writes\<close>

lemma boardAt_Inr_Num_iff:
  "boardAt b px py = Inr (Num 0) \<Longrightarrow>
     0 \<le> py \<and> py < int (length b) \<and> 0 \<le> px \<and> px < int (length (b ! nat py)) \<and>
     b ! nat py ! nat px = Num 0"
  by (auto simp: boardAt_def Let_def split: if_splits)

lemma boardSet_in_range:
  "0 \<le> py \<Longrightarrow> py < int (length b) \<Longrightarrow> 0 \<le> px \<Longrightarrow> px < int (length (b ! nat py)) \<Longrightarrow>
     boardSet b px py v = Inr (b[nat py := (b ! nat py)[nat px := v]])"
  by (simp add: boardSet_def rowSet_def)

lemma list_update_twice_restore:
  "i < length b \<Longrightarrow> j < length (b ! i) \<Longrightarrow> b ! i ! j = v \<Longrightarrow>
     (b[i := (b ! i)[j := w]])[i := ((b[i := (b ! i)[j := w]]) ! i)[j := v]] = b"
  by (simp add: list_update_same_conv) (metis list_update_id)

section \<open>applyMove, undoMove and switchPlayer\<close>




text \<open>
  C6. When \<^verbatim>\<open>applyMove(x, y)\<close> succeeds, an immediate \<^verbatim>\<open>undoMove()\<close> succeeds,
  hands back the move just made, and leaves the board array and the move history
  exactly as they were before the \<^verbatim>\<open>applyMove\<close>.
\<close>

theorem undoMove_after_applyMove:
  assumes "applyMove st px py tMove tStart = (Inr m, st')"
  shows "fst (undoMove st') = Inr (Some m) \<and>
         board (snd (undoMove st')) = board st \<and>
         moveHistory (snd (undoMove st')) = moveHistory st"
proof -
  from assms have valid: "isValidPosition st px py"
    by (auto simp: applyMove_def split: if_splits)
  from assms valid have empty: "boardAt (board st) px py = Inr (Num 0)"
    by (auto simp: applyMove_def Let_def split: if_splits sum.splits)
  note rng = boardAt_Inr_Num_iff [OF empty]
  from rng have ny: "nat py < length (board st)" and nx: "nat px < length (board st ! nat py)"
    by linarith+
  let ?b' = "(board st)[nat py := (board st ! nat py)[nat px := Num (currentPlayer st)]]"
  have set1: "boardSet (board st) px py (Num (currentPlayer st)) = Inr ?b'"
    using rng by (simp add: boardSet_in_range)
  from assms valid empty set1
  have m: "m = \<lparr> move_x = px, move_y = py, move_player = currentPlayer st,
                  move_step = moveCount st + 1, move_timestamp = tMove,
                  move_number = int (length (moveHistory st)) + 1 \<rparr>"
    and b': "board st' = ?b'" and h': "moveHistory st' = moveHistory st @ [m]"
    by (auto simp: applyMove_def Let_def split: if_splits)
  have mx: "move_x m = px" and my: "move_y m = py"
    by (simp_all add: m)
  have set2: "boardSet ?b' px py (Num 0) = Inr (board st)"
  proof -
    have "boardSet ?b' px py (Num 0) = Inr (?b'[nat py := (?b' ! nat py)[nat px := Num 0]])"
      using rng ny nx by (intro boardSet_in_range) simp_all
    also have "?b'[nat py := (?b' ! nat py)[nat px := Num 0]] = board st"
      using rng ny nx by (intro list_update_twice_restore) simp_all
    finally show ?thesis .
  qed
  show ?thesis
    using set2 by (simp add: undoMove_def Let_def h' b' mx my)
qed

theorem undoMove_after_applyMove_witness:
  "applyMove newGameState 7 7 100 101 =
     (Inr (projr (fst (applyMove newGameState 7 7 100 101))), snd (applyMove newGameState 7 7 100 101)) \<and>
   board (snd (undoMove (snd (applyMove newGameState 7 7 100 101)))) = board newGameState \<and>
   moveHistory (snd (undoMove (snd (applyMove newGameState 7 7 100 101)))) = []"
proof -
  have h: "applyMove newGameState 7 7 100 101 =
     (Inr (projr (fst (applyMove newGameState 7 7 100 101))), snd (applyMove newGameState 7 7 100 101))"
    by code_simp
  have e: "moveHistory newGameState = []"
    by (simp add: newGameState_def)
  from undoMove_after_applyMove [OF h] h e show ?thesis
    by simp
qed

section \<open>Piece count and history length\<close>

lemma row_count_update:
  "j < length r \<Longrightarrow>
     length (filter P (r[j := v])) + (if P (r ! j) then 1 else 0) =
     length (filter P r) + (if P v then 1 else 0)"
proof (induction r arbitrary: j)
  case Nil
  then show ?case by simp
next
  case (Cons a r)
  show ?case
  proof (cases j)
    case 0
    then show ?thesis by simp
  next
    case (Suc k)
    with Cons.prems Cons.IH [of k] show ?thesis by simp
  qed
qed

lemma board_count_update:
  "i < length b \<Longrightarrow> j < length (b ! i) \<Longrightarrow>
     length (filter P (concat (b[i := (b ! i)[j := v]]))) + (if P (b ! i ! j) then 1 else 0) =
     length (filter P (concat b)) + (if P v then 1 else 0)"
proof (induction b arbitrary: i)
  case Nil
  then show ?case by simp
next
  case (Cons r b)
  show ?case
  proof (cases i)
    case 0
    with Cons.prems row_count_update [of j r P v] show ?thesis by simp
  next
    case (Suc k)
    with Cons.prems Cons.IH [of k] show ?thesis by simp
  qed
qed

lemma nth_board_update:
  "i < length b \<Longrightarrow> j < length (b ! i) \<Longrightarrow>
     (b[i := (b ! i)[j := v]]) ! i' ! j' = (if i' = i \<and> j' = j then v else b ! i' ! j')"
  by (cases "i' = i"; cases "j' = j"; simp)

lemma length_board_update [simp]:
  "length (b[i := (b ! i)[j := v]]) = length b"
  by simp

lemma length_board_update_row [simp]:
  "length ((b[i := (b ! i)[j := v]]) ! i') = length (b ! i')"
  by (cases "i < length b") (simp_all add: nth_list_update list_update_beyond)

lemma stateInv_reset: "reset st0 = Inr st \<Longrightarrow> stateInv st"
  by (cases "boardSize st0 < 0") (simp_all add: reset_def stateInv_def boardPieceCount_def, fastforce)

lemma stateInv_switchPlayer: "stateInv st \<Longrightarrow> stateInv (switchPlayer st)"
  by (simp add: stateInv_def switchPlayer_def boardPieceCount_def)

lemma applyMove_success:
  assumes "applyMove st px py tMove tStart = (Inr m, st')"
  shows "boardAt (board st) px py = Inr (Num 0)"
    and "board st' = (board st)[nat py := (board st ! nat py)[nat px := Num (currentPlayer st)]]"
    and "moveHistory st' = moveHistory st @ [m]"
    and "move_x m = px" and "move_y m = py" and "move_player m = currentPlayer st"
    and "currentPlayer st' = currentPlayer st"
proof -
  from assms have valid: "isValidPosition st px py"
    by (auto simp: applyMove_def split: if_splits)
  from assms valid show empty: "boardAt (board st) px py = Inr (Num 0)"
    by (auto simp: applyMove_def Let_def split: if_splits sum.splits)
  note rng = boardAt_Inr_Num_iff [OF empty]
  have set1: "boardSet (board st) px py (Num (currentPlayer st)) =
      Inr ((board st)[nat py := (board st ! nat py)[nat px := Num (currentPlayer st)]])"
    using rng by (simp add: boardSet_in_range)
  from assms valid empty set1
  show "board st' = (board st)[nat py := (board st ! nat py)[nat px := Num (currentPlayer st)]]"
    and "moveHistory st' = moveHistory st @ [m]"
    and "move_x m = px" and "move_y m = py" and "move_player m = currentPlayer st"
    and "currentPlayer st' = currentPlayer st"
    by (auto simp: applyMove_def Let_def split: if_splits)
qed

lemma stateInv_applyMove:
  assumes inv: "stateInv st" and ok: "applyMove st px py tMove tStart = (Inr m, st')"
  shows "stateInv st'"
proof -
  note s = applyMove_success [OF ok]
  note rng = boardAt_Inr_Num_iff [OF s(1)]
  from rng have ny: "nat py < length (board st)" and nx: "nat px < length (board st ! nat py)"
    by linarith+
  from inv have cp: "currentPlayer st \<noteq> 0"
    by (simp add: stateInv_def)
  have old: "\<And>m'. m' \<in> set (moveHistory st) \<Longrightarrow> (move_x m', move_y m') \<noteq> (px, py)"
  proof
    fix m' assume m': "m' \<in> set (moveHistory st)" and eq: "(move_x m', move_y m') = (px, py)"
    from inv m' have "board st ! nat (move_y m') ! nat (move_x m') \<noteq> Num 0"
      by (simp add: stateInv_def)
    with eq rng show False by simp
  qed
  have cell: "\<And>i' j'. board st' ! i' ! j' =
        (if i' = nat py \<and> j' = nat px then Num (currentPlayer st) else board st ! i' ! j')"
    unfolding s(2) using ny nx by (rule nth_board_update)
  have len1: "length (board st') = length (board st)"
    and len2: "\<And>k. length (board st' ! k) = length (board st ! k)"
    by (simp_all add: s(2))
  have p1: "\<forall>m' \<in> set (moveHistory st').
        0 \<le> move_y m' \<and> move_y m' < int (length (board st')) \<and>
        0 \<le> move_x m' \<and> move_x m' < int (length (board st' ! nat (move_y m'))) \<and>
        board st' ! nat (move_y m') ! nat (move_x m') \<noteq> Num 0 \<and> move_player m' \<noteq> 0"
  proof
    fix m' assume "m' \<in> set (moveHistory st')"
    then consider "m' = m" | "m' \<in> set (moveHistory st)"
      by (auto simp: s(3))
    then show "0 \<le> move_y m' \<and> move_y m' < int (length (board st')) \<and>
        0 \<le> move_x m' \<and> move_x m' < int (length (board st' ! nat (move_y m'))) \<and>
        board st' ! nat (move_y m') ! nat (move_x m') \<noteq> Num 0 \<and> move_player m' \<noteq> 0"
    proof cases
      case 1
      with rng cp show ?thesis
        by (simp add: cell len1 len2 s(4,5,6))
    next
      case 2
      with inv have "0 \<le> move_y m' \<and> move_y m' < int (length (board st)) \<and>
        0 \<le> move_x m' \<and> move_x m' < int (length (board st ! nat (move_y m'))) \<and>
        board st ! nat (move_y m') ! nat (move_x m') \<noteq> Num 0 \<and> move_player m' \<noteq> 0"
        by (simp add: stateInv_def)
      with cp show ?thesis
        by (auto simp: cell len1 len2)
    qed
  qed
  have p2: "distinct (map (\<lambda>m. (move_x m, move_y m)) (moveHistory st'))"
    using inv old by (auto simp: s(3,4,5) stateInv_def)
  have p3: "currentPlayer st' \<noteq> 0"
    using cp by (simp add: s(7))
  have "boardPieceCount st' + (if board st ! nat py ! nat px \<noteq> Num 0 then 1 else 0) =
        boardPieceCount st + (if Num (currentPlayer st) \<noteq> Num 0 then 1 else 0)"
    unfolding boardPieceCount_def s(2) using ny nx by (rule board_count_update)
  with rng cp inv have p4: "boardPieceCount st' = length (moveHistory st')"
    by (simp add: s(3) stateInv_def)
  from p1 p2 p3 p4 show ?thesis
    unfolding stateInv_def by blast
qed


lemma undoMove_success:
  assumes "undoMove st = (Inr (Some m), st')"
  shows "moveHistory st \<noteq> []" and "m = last (moveHistory st)"
    and "moveHistory st' = butlast (moveHistory st)"
    and "boardSet (board st) (move_x m) (move_y m) (Num 0) = Inr (board st')"
    and "currentPlayer st' = move_player m"
  using assms by (auto simp: undoMove_def Let_def split: if_splits sum.splits)

lemma stateInv_undoMove:
  assumes inv: "stateInv st" and ok: "undoMove st = (Inr (Some m), st')"
  shows "stateInv st'"
proof -
  note s = undoMove_success [OF ok]
  from s(1,2) have mem: "m \<in> set (moveHistory st)"
    by simp
  from s(1,2) have split_h: "moveHistory st = butlast (moveHistory st) @ [m]"
    by simp
  from inv mem have rng: "0 \<le> move_y m" "move_y m < int (length (board st))"
      "0 \<le> move_x m" "move_x m < int (length (board st ! nat (move_y m)))"
      "board st ! nat (move_y m) ! nat (move_x m) \<noteq> Num 0" "move_player m \<noteq> 0"
    by (simp_all add: stateInv_def)
  from rng have ny: "nat (move_y m) < length (board st)"
    and nx: "nat (move_x m) < length (board st ! nat (move_y m))"
    by linarith+
  from s(4) rng have b': "board st' =
      (board st)[nat (move_y m) := (board st ! nat (move_y m))[nat (move_x m) := Num 0]]"
    by (simp add: boardSet_in_range)
  have cell: "\<And>i' j'. board st' ! i' ! j' =
        (if i' = nat (move_y m) \<and> j' = nat (move_x m) then Num 0 else board st ! i' ! j')"
    unfolding b' using ny nx by (rule nth_board_update)
  have len1: "length (board st') = length (board st)"
    and len2: "\<And>k. length (board st' ! k) = length (board st ! k)"
    by (simp_all add: b')
  from inv have "distinct (map (\<lambda>m. (move_x m, move_y m)) (moveHistory st))"
    by (simp add: stateInv_def)
  then have dist: "distinct (map (\<lambda>m. (move_x m, move_y m)) (butlast (moveHistory st) @ [m]))"
    using split_h by simp
  then have other: "\<And>m'. m' \<in> set (butlast (moveHistory st)) \<Longrightarrow>
      (move_x m', move_y m') \<noteq> (move_x m, move_y m)"
    by (auto simp: image_iff)
  have p1: "\<forall>m' \<in> set (moveHistory st').
        0 \<le> move_y m' \<and> move_y m' < int (length (board st')) \<and>
        0 \<le> move_x m' \<and> move_x m' < int (length (board st' ! nat (move_y m'))) \<and>
        board st' ! nat (move_y m') ! nat (move_x m') \<noteq> Num 0 \<and> move_player m' \<noteq> 0"
  proof
    fix m' assume m': "m' \<in> set (moveHistory st')"
    then have bl: "m' \<in> set (butlast (moveHistory st))"
      by (simp add: s(3))
    then have "m' \<in> set (moveHistory st)"
      by (rule in_set_butlastD)
    with inv have old: "0 \<le> move_y m' \<and> move_y m' < int (length (board st)) \<and>
        0 \<le> move_x m' \<and> move_x m' < int (length (board st ! nat (move_y m'))) \<and>
        board st ! nat (move_y m') ! nat (move_x m') \<noteq> Num 0 \<and> move_player m' \<noteq> 0"
      by (simp add: stateInv_def)
    from other [OF bl] old rng
    have "\<not> (nat (move_y m') = nat (move_y m) \<and> nat (move_x m') = nat (move_x m))"
      by auto
    with old show "0 \<le> move_y m' \<and> move_y m' < int (length (board st')) \<and>
        0 \<le> move_x m' \<and> move_x m' < int (length (board st' ! nat (move_y m'))) \<and>
        board st' ! nat (move_y m') ! nat (move_x m') \<noteq> Num 0 \<and> move_player m' \<noteq> 0"
      by (simp add: cell len1 len2)
  qed
  have p2: "distinct (map (\<lambda>m. (move_x m, move_y m)) (moveHistory st'))"
    using dist by (simp add: s(3))
  have p3: "currentPlayer st' \<noteq> 0"
    using rng by (simp add: s(5))
  have "boardPieceCount st' + (if board st ! nat (move_y m) ! nat (move_x m) \<noteq> Num 0 then 1 else 0) =
        boardPieceCount st + (if Num 0 \<noteq> Num 0 then 1 else 0)"
    unfolding boardPieceCount_def b' using ny nx by (rule board_count_update)
  moreover from inv have "boardPieceCount st = length (moveHistory st)"
    by (simp add: stateInv_def)
  ultimately have p4: "boardPieceCount st' = length (moveHistory st')"
    using rng by (simp add: s(3))
  from p1 p2 p3 p4 show ?thesis
    unfolding stateInv_def by blast
qed

lemma stateInv_stepOp: "stateInv st \<Longrightarrow> stepOp st op = Some st' \<Longrightarrow> stateInv st'"
proof (cases op)
  case (ApplyOp px py tMove tStart)
  assume "stateInv st" "stepOp st op = Some st'"
  with ApplyOp show ?thesis
    by (auto split: prod.splits sum.splits dest: stateInv_applyMove)
next
  case UndoOp
  assume "stateInv st" "stepOp st op = Some st'"
  with UndoOp show ?thesis
    by (auto split: prod.splits sum.splits option.splits dest: stateInv_undoMove)
next
  case SwitchOp
  assume "stateInv st" "stepOp st op = Some st'"
  with SwitchOp show ?thesis
    by (auto simp: stateInv_switchPlayer)
qed

lemma stateInv_execOps: "stateInv st \<Longrightarrow> execOps st ops = Some st' \<Longrightarrow> stateInv st'"
proof (induction ops arbitrary: st)
  case Nil
  then show ?case by simp
next
  case (Cons op ops)
  then show ?case
    by (auto split: option.splits dest: stateInv_stepOp)
qed

lemma execOps_take:
  "execOps st ops = Some st' \<Longrightarrow> \<exists>u. execOps st (take n ops) = Some u"
proof (induction ops arbitrary: st n)
  case Nil
  then show ?case by simp
next
  case (Cons op ops)
  then show ?case
    by (cases n) (auto split: option.splits)
qed

text \<open>
  C5. Start from a reset state and run any sequence of successful \<^verbatim>\<open>applyMove\<close>
  and \<^verbatim>\<open>undoMove\<close> calls (calls of \<^verbatim>\<open>switchPlayer\<close> may be mixed in). After
  every step, that is after every prefix of the sequence, the number of non-empty cells
  of the board equals the length of the move history.
\<close>

theorem pieceCount_eq_history_length:
  assumes "reset st0 = Inr st" and "execOps st ops = Some st'"
  shows "\<exists>u. execOps st (take n ops) = Some u \<and> boardPieceCount u = length (moveHistory u)"
proof -
  from execOps_take [OF assms(2)] obtain u where u: "execOps st (take n ops) = Some u"
    by blast
  from stateInv_reset [OF assms(1)] u have "stateInv u"
    by (rule stateInv_execOps)
  with u show ?thesis
    by (auto simp: stateInv_def)
qed

theorem pieceCount_eq_history_length_witness:
  "reset newGameState = Inr newGameState \<and>
   execOps newGameState demoOps = Some (the (execOps newGameState demoOps)) \<and>
   boardPieceCount (the (execOps newGameState (take 3 demoOps))) = 2 \<and>
   length (moveHistory (the (execOps newGameState (take 3 demoOps)))) = 2"
proof -
  have r: "reset newGameState = Inr newGameState"
    by code_simp
  have e: "execOps newGameState demoOps = Some (the (execOps newGameState demoOps))"
    by code_simp
  have l: "length (moveHistory (the (execOps newGameState (take 3 demoOps)))) = 2"
    by code_simp
  from pieceCount_eq_history_length [OF r e, of 3] r e l show ?thesis
    by auto
qed

section \<open>The pattern matcher at the board edge and on six in a row\<close>

text \<open>
  C1. An off-board cell of the line window should only block. In the position
  \<open>edgeFourState\<close> Black has exactly four stones (0,0) to (3,0) against the left edge.
  Seen from (3,0) in the horizontal direction the window is
  \<open>[- 1, 1, 1, 1, 1, 0, 0, 0, 0]\<close>; joined with commas it reads
  \<^verbatim>\<open>-1,1,1,1,1,0,0,0,0\<close>, in which the text \<^verbatim>\<open>1,1,1,1,1\<close> occurs, starting inside the
  off-board tag \<^verbatim>\<open>-1\<close>. The matcher therefore answers \<open>Five\<close>, although there is no run
  of five stones and \<^verbatim>\<open>checkWin\<close> reports no win.
\<close>

theorem edge_four_classified_five:
  "getLinePattern (board edgeFourState) 3 0 1 (directions ! 0) = Inr [- 1, 1, 1, 1, 1, 0, 0, 0, 0] \<and>
   lineString [- 1, 1, 1, 1, 1, 0, 0, 0, 0] = ''-1,1,1,1,1,0,0,0,0'' \<and>
   classifyBlack (board edgeFourState) 3 0 (directions ! 0) = Some Five \<and>
   \<not> runThrough (board edgeFourState) 15 1 3 0 (directions ! 0) 5 \<and>
   map_sum id isWin (checkWin edgeFourState 3 0 (Some 1)) = Inr False"
  by code_simp

text \<open>
  C2. A window with six or more contiguous own stones should be classified as
  \<open>Overline\<close>. \<^verbatim>\<open>_matchPattern\<close> tests for five first, and every line that contains
  six in a row contains five in a row, so the overline test is never reached. In
  \<open>sixState\<close> a black stone at (7,7) makes six in a row; \<^verbatim>\<open>analyzePattern\<close> reports
  the single pattern \<open>Five\<close> with score 100000 for it.
\<close>

theorem six_in_a_row_classified_five:
  "matchPattern [0, 1, 1, 1, 1, 1, 1, 0, 0] = Some (Five, 100000) \<and>
   map_sum id (\<lambda>a. (map (\<lambda>p. (patType p, patLine p)) (anPatterns a), anScore a))
     (analyzePattern sixState 7 7 1) = Inr ([(Five, [0, 1, 1, 1, 1, 1, 1, 0, 0])], 100000)"
  by code_simp

text \<open>The overline branch of \<^verbatim>\<open>_matchPattern\<close> is dead for every line.\<close>

lemma matchPattern_never_overline: "matchPattern line \<noteq> Some (Overline, sc)"
proof -
  have "sublist ''1,1,1,1,1'' ''1,1,1,1,1,1''"
    by code_simp
  then have "strIncludes s ''1,1,1,1,1,1'' \<Longrightarrow> strIncludes s ''1,1,1,1,1''" for s
    unfolding strIncludes_def by (rule sublist_order.order_trans)
  then show ?thesis
    by (auto simp: matchPattern_def Let_def)
qed

section \<open>validateMove\<close>

text \<open>
  C7. \<^verbatim>\<open>validateMove\<close> checks in this order: a position off the board is rejected
  as \<^verbatim>\<open>INVALID_POSITION\<close> whatever else holds; a position on the board whose cell is
  not empty is rejected as \<^verbatim>\<open>POSITION_OCCUPIED\<close> whatever the forbidden rules say; and
  the rejection \<^verbatim>\<open>FORBIDDEN_MOVE\<close> occurs only for an empty cell on the board, with
  forbidden rules enabled and Black (player 1) to move, and then exactly when
  \<^verbatim>\<open>detectForbidden\<close> reports a forbidden move. When the mover is not Black the
  result is never \<^verbatim>\<open>FORBIDDEN_MOVE\<close>.
\<close>

theorem validateMove_order:
  "(\<not> isValidPosition st px py \<longrightarrow> validateMove st px py = rejected ''INVALID_POSITION'') \<and>
   (isValidPosition st px py \<and> getPiece st px py = Inr v \<and> v \<noteq> Num 0 \<longrightarrow>
      validateMove st px py = rejected ''POSITION_OCCUPIED'') \<and>
   (errorCode (validateMove st px py) = Some ''FORBIDDEN_MOVE'' \<longleftrightarrow>
      isValidPosition st px py \<and> getPiece st px py = Inr (Num 0) \<and>
      forbiddenRules (settings st) \<and> currentPlayer st = 1 \<and>
      map_sum id isForbidden (detectForbidden st px py) = Inr True) \<and>
   (currentPlayer st \<noteq> 1 \<longrightarrow> errorCode (validateMove st px py) \<noteq> Some ''FORBIDDEN_MOVE'')"
  by (auto simp: validateMove_def rejected_def split: sum.splits)

theorem validateMove_order_witness:
  "\<not> isValidPosition sixState 15 7 \<and> validateMove sixState 15 7 = rejected ''INVALID_POSITION'' \<and>
   isValidPosition sixState 4 7 \<and> getPiece sixState 4 7 = Inr (Num 1) \<and> Num 1 \<noteq> Num 0 \<and>
   validateMove sixState 4 7 = rejected ''POSITION_OCCUPIED'' \<and>
   errorCode (validateMove sixState 7 7) = Some ''FORBIDDEN_MOVE'' \<and>
   forbiddenRules (settings sixState) \<and> currentPlayer sixState = 1 \<and>
   currentPlayer (switchPlayer sixState) \<noteq> 1 \<and>
   errorCode (validateMove (switchPlayer sixState) 7 7) \<noteq> Some ''FORBIDDEN_MOVE''"
proof -
  have h1: "\<not> isValidPosition sixState 15 7"
    by code_simp
  have h2: "isValidPosition sixState 4 7 \<and> getPiece sixState 4 7 = Inr (Num 1) \<and> Num 1 \<noteq> Num 0"
    by code_simp
  have h3: "errorCode (validateMove sixState 7 7) = Some ''FORBIDDEN_MOVE''"
    by code_simp
  have h4: "currentPlayer (switchPlayer sixState) \<noteq> 1"
    by code_simp
  have c1: "validateMove sixState 15 7 = rejected ''INVALID_POSITION''"
    using validateMove_order [of sixState 15 7 "Num 1"] h1 by blast
  have c2: "validateMove sixState 4 7 = rejected ''POSITION_OCCUPIED''"
    using validateMove_order [of sixState 4 7 "Num 1"] h2 by blast
  have c3: "forbiddenRules (settings sixState) \<and> currentPlayer sixState = 1"
    using validateMove_order [of sixState 7 7 "Num 1"] h3 by blast
  have c4: "errorCode (validateMove (switchPlayer sixState) 7 7) \<noteq> Some ''FORBIDDEN_MOVE''"
    using validateMove_order [of "switchPlayer sixState" 7 7 "Num 1"] h4 by blast
  from h1 h2 h3 h4 c1 c2 c3 c4 show ?thesis
    by simp
qed

section \<open>getAvailableMoves\<close>

lemma forEach_invariant_all:
  "(\<forall>a \<in> set as. \<forall>s s'. P s \<longrightarrow> body a s = Inr s' \<longrightarrow> P s') \<Longrightarrow> P s \<Longrightarrow>
     forEach body as s = Inr s' \<Longrightarrow> P s'"
proof (induction as arbitrary: s)
  case Nil
  then show ?case by simp
next
  case (Cons a as)
  from Cons.prems(3) obtain s1 where s1: "body a s = Inr s1" and rest: "forEach body as s1 = Inr s'"
    by (auto split: sum.splits)
  from Cons.prems(1,2) s1 have p1: "P s1"
    by (meson list.set_intros(1))
  from Cons.prems(1) have "\<forall>a \<in> set as. \<forall>s s'. P s \<longrightarrow> body a s = Inr s' \<longrightarrow> P s'"
    by (meson list.set_intros(2))
  from Cons.IH [OF this p1 rest] show ?case .
qed

lemma forEach_invariant:
  assumes "\<And>a s s'. a \<in> set as \<Longrightarrow> P s \<Longrightarrow> body a s = Inr s' \<Longrightarrow> P s'"
    and "P s" and "forEach body as s = Inr s'"
  shows "P s'"
proof -
  from assms(1) have "\<forall>a \<in> set as. \<forall>s s'. P s \<longrightarrow> body a s = Inr s' \<longrightarrow> P s'"
    by blast
  from forEach_invariant_all [OF this assms(2,3)] show ?thesis .
qed

lemma visitCell_availInv:
  assumes inv: "availInv st r acc" and near: "nearHistory st r px py"
    and step: "visitCell st incl px py acc = Inr acc'"
  shows "availInv st r acc'"
proof -
  obtain moves searched where acc: "acc = (moves, searched)"
    by (cases acc)
  from inv acc have d: "distinct moves"
    and all: "list_all (\<lambda>(qx, qy). cellKey qx qy \<in> searched \<and> isValidPosition st qx qy \<and>
                           getPiece st qx qy = Inr (Num 0) \<and> nearHistory st r qx qy) moves"
    by (simp_all add: availInv_def)
  show ?thesis
  proof (cases "cellKey px py \<in> searched")
    case True
    with step acc inv show ?thesis
      by (simp add: visitCell_def)
  next
    case False
    with all have fresh: "(px, py) \<notin> set moves"
      by (auto simp: list_all_iff)
    have grow: "list_all (\<lambda>(qx, qy). cellKey qx qy \<in> insert (cellKey px py) searched \<and>
                           isValidPosition st qx qy \<and>
                           getPiece st qx qy = Inr (Num 0) \<and> nearHistory st r qx qy) moves"
      using all by (auto simp: list_all_iff)
    have keep: "availInv st r (moves, insert (cellKey px py) searched)"
      using d grow by (simp add: availInv_def)
    have push: "availInv st r (moves @ [(px, py)], insert (cellKey px py) searched)"
      if "isValidPosition st px py" "getPiece st px py = Inr (Num 0)"
      using that d grow fresh near by (simp add: availInv_def)
    show ?thesis
    proof (cases "isValidPosition st px py")
      case invalid: False
      with step acc False have "acc' = (moves, insert (cellKey px py) searched)"
        by (simp add: visitCell_def Let_def)
      with keep show ?thesis by simp
    next
      case valid: True
      show ?thesis
      proof (cases "getPiece st px py")
        case (Inl e)
        with step acc False valid show ?thesis
          by (simp add: visitCell_def Let_def)
      next
        case (Inr v)
        show ?thesis
        proof (cases "v = Num 0")
          case occupied: False
          with step acc False valid Inr have "acc' = (moves, insert (cellKey px py) searched)"
            by (simp add: visitCell_def Let_def)
          with keep show ?thesis by simp
        next
          case empty: True
          with step acc False valid Inr
          have "acc' = (moves, insert (cellKey px py) searched) \<or>
                acc' = (moves @ [(px, py)], insert (cellKey px py) searched)"
            by (simp add: visitCell_def Let_def split: if_splits sum.splits)
          with keep push [OF valid] Inr empty show ?thesis
            by auto
        qed
      qed
    qed
  qed
qed

lemma upto_abs: "i \<in> set [- r..r] \<Longrightarrow> \<bar>i\<bar> \<le> r"
  by auto

lemma loops_availInv:
  assumes "availInv st r acc"
    and "forEach (\<lambda>move.
           forEach (\<lambda>ddx.
             forEach (\<lambda>ddy. visitCell st incl (move_x move + ddx) (move_y move + ddy))
               [- r..r])
             [- r..r])
         (moveHistory st) acc = Inr acc'"
  shows "availInv st r acc'"
proof (rule forEach_invariant [where P = "availInv st r", OF _ assms(1) assms(2)])
  fix m s s'
  assume m: "m \<in> set (moveHistory st)" and s: "availInv st r s"
    and run: "forEach (\<lambda>ddx. forEach (\<lambda>ddy. visitCell st incl (move_x m + ddx) (move_y m + ddy))
               [- r..r]) [- r..r] s = Inr s'"
  show "availInv st r s'"
  proof (rule forEach_invariant [where P = "availInv st r", OF _ s run])
    fix ddx t t'
    assume ddx: "ddx \<in> set [- r..r]" and t: "availInv st r t"
      and run2: "forEach (\<lambda>ddy. visitCell st incl (move_x m + ddx) (move_y m + ddy)) [- r..r] t = Inr t'"
    show "availInv st r t'"
    proof (rule forEach_invariant [where P = "availInv st r", OF _ t run2])
      fix ddy u u'
      assume ddy: "ddy \<in> set [- r..r]" and u: "availInv st r u"
        and v: "visitCell st incl (move_x m + ddx) (move_y m + ddy) u = Inr u'"
      from m upto_abs [OF ddx] upto_abs [OF ddy]
      have "nearHistory st r (move_x m + ddx) (move_y m + ddy)"
        by (auto simp: nearHistory_def list_ex_iff intro!: bexI [of _ m])
      from u this v show "availInv st r u'"
        by (rule visitCell_availInv)
    qed
  qed
qed

text \<open>
  C8. When the history is empty \<^verbatim>\<open>getAvailableMoves\<close> returns exactly one cell, the
  centre \<open>boardSize div 2\<close> in both coordinates, which is (7,7) on the 15 by 15 board.
  Otherwise every returned cell lies on the board, is empty, and is within Chebyshev
  distance \<open>r\<close> (the \<^verbatim>\<open>range\<close> option, 2 by default) of some recorded move, and no
  cell is returned twice.
\<close>

theorem getAvailableMoves_cells:
  assumes "getAvailableMoves st r incl = Inr moves"
  shows "(moveHistory st = [] \<longrightarrow>
            moves = [(boardSize st div 2, boardSize st div 2)] \<and>
            (boardSize st = 15 \<longrightarrow> moves = [(7, 7)])) \<and>
         (moveHistory st \<noteq> [] \<longrightarrow>
            distinct moves \<and>
            (\<forall>(px, py) \<in> set moves.
               isValidPosition st px py \<and> getPiece st px py = Inr (Num 0) \<and>
               (\<exists>m \<in> set (moveHistory st). max \<bar>px - move_x m\<bar> \<bar>py - move_y m\<bar> \<le> r)))"
proof (cases "moveHistory st = []")
  case True
  with assms show ?thesis
    by (auto simp: getAvailableMoves_def Let_def)
next
  case False
  with assms obtain searched where run: "forEach (\<lambda>move.
           forEach (\<lambda>ddx.
             forEach (\<lambda>ddy. visitCell st incl (move_x move + ddx) (move_y move + ddy))
               [- r..r])
             [- r..r])
         (moveHistory st) ([], {}) = Inr (moves, searched)"
    by (auto simp: getAvailableMoves_def split: sum.splits)
  have "availInv st r ([], {})"
    by (simp add: availInv_def)
  from loops_availInv [OF this run] have "availInv st r (moves, searched)" .
  then have d: "distinct moves"
    and all: "list_all (\<lambda>(px, py). cellKey px py \<in> searched \<and> isValidPosition st px py \<and>
                           getPiece st px py = Inr (Num 0) \<and> nearHistory st r px py) moves"
    by (simp_all add: availInv_def)
  have "isValidPosition st px py \<and> getPiece st px py = Inr (Num 0) \<and>
        (\<exists>m \<in> set (moveHistory st). max \<bar>px - move_x m\<bar> \<bar>py - move_y m\<bar> \<le> r)"
    if "(px, py) \<in> set moves" for px py
  proof -
    from all that have "isValidPosition st px py \<and> getPiece st px py = Inr (Num 0) \<and>
        nearHistory st r px py"
      unfolding list_all_iff by blast
    then show ?thesis
      unfolding nearHistory_def list_ex_iff by blast
  qed
  with d False show ?thesis
    by blast
qed

theorem getAvailableMoves_cells_witness:
  "getAvailableMoves newGameState 2 False = Inr [(7, 7)] \<and>
   moveHistory newGameState = [] \<and> boardSize newGameState = 15 \<and>
   getAvailableMoves (the (execOps newGameState demoOps)) 2 False =
     Inr (projr (getAvailableMoves (the (execOps newGameState demoOps)) 2 False)) \<and>
   moveHistory (the (execOps newGameState demoOps)) \<noteq> [] \<and>
   length (projr (getAvailableMoves (the (execOps newGameState demoOps)) 2 False)) = 32 \<and>
   distinct (projr (getAvailableMoves (the (execOps newGameState demoOps)) 2 False))"
proof -
  have e: "moveHistory newGameState = [] \<and> boardSize newGameState = 15"
    by code_simp
  have g0: "getAvailableMoves newGameState 2 False =
      Inr (projr (getAvailableMoves newGameState 2 False))"
    by code_simp
  have g1: "getAvailableMoves (the (execOps newGameState demoOps)) 2 False =
      Inr (projr (getAvailableMoves (the (execOps newGameState demoOps)) 2 False))"
    by code_simp
  have n: "moveHistory (the (execOps newGameState demoOps)) \<noteq> []"
    by code_simp
  have l: "length (projr (getAvailableMoves (the (execOps newGameState demoOps)) 2 False)) = 32"
    by code_simp
  from getAvailableMoves_cells [OF g0] e
  have c0: "projr (getAvailableMoves newGameState 2 False) = [(7, 7)]"
    by blast
  from getAvailableMoves_cells [OF g1] n
  have c1: "distinct (projr (getAvailableMoves (the (execOps newGameState demoOps)) 2 False))"
    by blast
  from e g0 g1 n l c0 c1 show ?thesis
    by simp
qed

section \<open>checkWin\<close>

lemma run_window:
  fixes own :: "int \<Rightarrow> bool" and f g k :: int
  assumes "0 \<le> f" "0 \<le> g"
    and inside: "\<And>i. - g \<le> i \<Longrightarrow> i \<le> f \<Longrightarrow> own i"
    and right: "\<not> own (f + 1)" and left: "\<not> own (- g - 1)"
  shows "(\<exists>lo. 1 - k \<le> lo \<and> lo \<le> 0 \<and> (\<forall>i. lo \<le> i \<and> i \<le> lo + k - 1 \<longrightarrow> own i)) \<longleftrightarrow>
         1 \<le> k \<and> k \<le> f + g + 1"
proof
  assume "\<exists>lo. 1 - k \<le> lo \<and> lo \<le> 0 \<and> (\<forall>i. lo \<le> i \<and> i \<le> lo + k - 1 \<longrightarrow> own i)"
  then obtain lo where lo: "1 - k \<le> lo" "lo \<le> 0" and win: "\<And>i. lo \<le> i \<Longrightarrow> i \<le> lo + k - 1 \<Longrightarrow> own i"
    by blast
  have "lo + k - 1 \<le> f"
  proof (rule ccontr)
    assume "\<not> lo + k - 1 \<le> f"
    with lo \<open>0 \<le> f\<close> have "own (f + 1)" by (intro win) linarith+
    with right show False ..
  qed
  moreover have "- g \<le> lo"
  proof (rule ccontr)
    assume "\<not> - g \<le> lo"
    with lo \<open>0 \<le> g\<close> have "own (- g - 1)" by (intro win) linarith+
    with left show False ..
  qed
  ultimately show "1 \<le> k \<and> k \<le> f + g + 1"
    using lo by linarith
next
  assume k: "1 \<le> k \<and> k \<le> f + g + 1"
  define lo where "lo = max (- g) (1 - k)"
  have "1 - k \<le> lo" "lo \<le> 0" "- g \<le> lo" "lo + k - 1 \<le> f"
    using k assms(1,2) by (auto simp: lo_def)
  then have "1 - k \<le> lo \<and> lo \<le> 0 \<and> (\<forall>i. lo \<le> i \<and> i \<le> lo + k - 1 \<longrightarrow> own i)"
    using inside by auto
  then show "\<exists>lo. 1 - k \<le> lo \<and> lo \<le> 0 \<and> (\<forall>i. lo \<le> i \<and> i \<le> lo + k - 1 \<longrightarrow> own i)" ..
qed

lemma runThrough_iff:
  "runThrough b n p px py d k \<longleftrightarrow>
     (\<exists>lo. 1 - k \<le> lo \<and> lo \<le> 0 \<and>
        (\<forall>i. lo \<le> i \<and> i \<le> lo + k - 1 \<longrightarrow> stoneAt b n p (px + dx d * i) (py + dy d * i)))"
  unfolding runThrough_def list_ex_iff list_all_iff by (simp add: Bex_def Ball_def conj_assoc)

lemma wf_getPiece:
  assumes "wfState st" "isValidPosition st nx ny"
  shows "getPiece st nx ny = Inr (board st ! nat ny ! nat nx)"
proof -
  from assms have y: "0 \<le> ny" "ny < int (length (board st))" "nat ny < length (board st)"
    by (auto simp: wfState_def isValidPosition_def)
  with assms(1) have "length (board st ! nat ny) = nat (boardSize st)"
    by (simp add: wfState_def list_all_length)
  with assms(2) have "0 \<le> nx" "nx < int (length (board st ! nat ny))"
    by (auto simp: isValidPosition_def)
  with assms(2) y show ?thesis
    by (simp add: getPiece_def boardAt_def)
qed

lemma stoneAt_valid:
  "stoneAt (board st) (boardSize st) p nx ny \<longleftrightarrow>
     isValidPosition st nx ny \<and> board st ! nat ny ! nat nx = Num p"
  by (auto simp: stoneAt_def isValidPosition_def)

lemma countLoop_scan:
  assumes "wfState st"
  shows "\<exists>n e. 0 \<le> n \<and> countLoop st px py p d sg i c = Inr (c + n, e) \<and>
           (\<forall>j. i \<le> j \<and> j < i + n \<longrightarrow>
                stoneAt (board st) (boardSize st) p (px + sg * dx d * j) (py + sg * dy d * j)) \<and>
           (i + n < boardSize st \<longrightarrow>
                \<not> stoneAt (board st) (boardSize st) p (px + sg * dx d * (i + n)) (py + sg * dy d * (i + n)))"
  using assms
proof (induction st px py p d sg i c rule: countLoop.induct)
  case (1 st px py p d sg i c)
  let ?own = "\<lambda>j. stoneAt (board st) (boardSize st) p (px + sg * dx d * j) (py + sg * dy d * j)"
  let ?nx = "px + sg * dx d * i" and ?ny = "py + sg * dy d * i"
  have stop: "\<exists>n e. 0 \<le> n \<and> Inr (c, v) = Inr (c + n, e) \<and>
           (\<forall>j. i \<le> j \<and> j < i + n \<longrightarrow> ?own j) \<and> (i + n < boardSize st \<longrightarrow> \<not> ?own (i + n))"
    if "i < boardSize st \<longrightarrow> \<not> ?own i" for v :: jsval
    using that by (intro exI [of _ 0] exI [of _ v]) auto
  show ?case
  proof (cases "i < boardSize st")
    case False
    then have "countLoop st px py p d sg i c = Inr (c, Null)"
      by (simp add: countLoop.simps [of st px py p d sg i c])
    with stop [of Null] False show ?thesis by simp
  next
    case inb: True
    show ?thesis
    proof (cases "isValidPosition st ?nx ?ny")
      case False
      with inb have "countLoop st px py p d sg i c = Inr (c, Null)"
        by (simp add: countLoop.simps [of st px py p d sg i c] Let_def)
      moreover from False have "\<not> ?own i"
        by (simp add: stoneAt_valid)
      ultimately show ?thesis using stop [of Null] by simp
    next
      case valid: True
      note gp = wf_getPiece [OF "1.prems" valid]
      show ?thesis
      proof (cases "board st ! nat ?ny ! nat ?nx = Num p")
        case False
        with inb valid gp have "countLoop st px py p d sg i c = Inr (c, board st ! nat ?ny ! nat ?nx)"
          by (simp add: countLoop.simps [of st px py p d sg i c] Let_def)
        moreover from False have "\<not> ?own i"
          by (simp add: stoneAt_valid)
        ultimately show ?thesis using stop [of "board st ! nat ?ny ! nat ?nx"] by simp
      next
        case own: True
        with inb valid gp have unfold: "countLoop st px py p d sg i c = countLoop st px py p d sg (i + 1) (c + 1)"
          by (simp add: countLoop.simps [of st px py p d sg i c] Let_def)
        from own valid have owni: "?own i"
          by (simp add: stoneAt_valid)
        from "1.IH" [OF inb refl refl _ gp _ "1.prems"] valid own
        obtain n e where n: "0 \<le> n" "countLoop st px py p d sg (i + 1) (c + 1) = Inr (c + 1 + n, e)"
          "\<forall>j. i + 1 \<le> j \<and> j < i + 1 + n \<longrightarrow> ?own j"
          "i + 1 + n < boardSize st \<longrightarrow> \<not> ?own (i + 1 + n)"
          by auto
        have all: "\<forall>j. i \<le> j \<and> j < i + (n + 1) \<longrightarrow> ?own j"
        proof (intro allI impI)
          fix j assume "i \<le> j \<and> j < i + (n + 1)"
          then consider "j = i" | "i + 1 \<le> j \<and> j < i + 1 + n" by linarith
          then show "?own j" using owni n(3) by cases auto
        qed
        have eq: "i + (n + 1) = i + 1 + n"
          by simp
        from n(4) have last: "i + (n + 1) < boardSize st \<longrightarrow> \<not> ?own (i + (n + 1))"
          unfolding eq .
        from n(1) have "0 \<le> n + 1" by simp
        moreover from unfold n(2) have "countLoop st px py p d sg i c = Inr (c + (n + 1), e)"
          by simp
        ultimately show ?thesis using all last by blast
      qed
    qed
  qed
qed


lemma directions_cases:
  "d \<in> set directions \<Longrightarrow> dx d = 1 \<and> (dy d = 0 \<or> dy d = 1 \<or> dy d = - 1) \<or> dx d = 0 \<and> dy d = 1"
  by (auto simp: directions_def)

lemma off_board_far:
  assumes "d \<in> set directions" "0 \<le> px" "px < n" "0 \<le> py" "py < n" "n \<le> \<bar>j\<bar>"
  shows "\<not> stoneAt b n p (px + dx d * j) (py + dy d * j)"
  using directions_cases [OF assms(1)] assms(2-) by (auto simp: stoneAt_def)

lemma countConsecutive_run:
  assumes wf: "wfState st" and valid: "isValidPosition st px py"
    and centre: "board st ! nat py ! nat px = Num p" and d: "d \<in> set directions"
  shows "\<exists>r. countConsecutive st px py p d = Inr r \<and>
           (\<forall>k. runThrough (board st) (boardSize st) p px py d k \<longleftrightarrow> 1 \<le> k \<and> k \<le> count r)"
proof -
  let ?own = "\<lambda>j. stoneAt (board st) (boardSize st) p (px + dx d * j) (py + dy d * j)"
  from valid have c: "0 \<le> px" "px < boardSize st" "0 \<le> py" "py < boardSize st"
    by (simp_all add: isValidPosition_def)
  note far = off_board_far [OF d c, of _ "board st" p]
  from countLoop_scan [OF wf, of px py p d 1 1 1]
  obtain f e1 where f: "0 \<le> f" "countLoop st px py p d 1 1 1 = Inr (1 + f, e1)"
    "\<forall>j. 1 \<le> j \<and> j < 1 + f \<longrightarrow> ?own j"
    "1 + f < boardSize st \<longrightarrow> \<not> ?own (1 + f)"
    by auto
  from countLoop_scan [OF wf, of px py p d "- 1" 1 "1 + f"]
  obtain g e2 where g: "0 \<le> g" "countLoop st px py p d (- 1) 1 (1 + f) = Inr (1 + f + g, e2)"
    "\<forall>j. 1 \<le> j \<and> j < 1 + g \<longrightarrow>
        stoneAt (board st) (boardSize st) p (px - dx d * j) (py - dy d * j)"
    "1 + g < boardSize st \<longrightarrow>
        \<not> stoneAt (board st) (boardSize st) p (px - dx d * (1 + g)) (py - dy d * (1 + g))"
    by auto
  have neg: "?own (- j) = stoneAt (board st) (boardSize st) p (px - dx d * j) (py - dy d * j)" for j
    by simp
  have right: "\<not> ?own (f + 1)"
  proof (cases "1 + f < boardSize st")
    case True
    with f(4) show ?thesis by (simp add: add.commute)
  next
    case False
    with f(1) have "boardSize st \<le> \<bar>f + 1\<bar>" by linarith
    then show ?thesis by (rule far)
  qed
  have left: "\<not> ?own (- g - 1)"
  proof (cases "1 + g < boardSize st")
    case True
    have e: "- g - 1 = - (1 + g)" by simp
    show ?thesis unfolding e neg using True g(4) by blast
  next
    case False
    with g(1) have "boardSize st \<le> \<bar>- g - 1\<bar>" by linarith
    then show ?thesis by (rule far)
  qed
  have inside: "?own i" if "- g \<le> i" "i \<le> f" for i
  proof -
    consider "i = 0" | "1 \<le> i" | "1 \<le> - i" by linarith
    then show ?thesis
    proof cases
      case 1
      with valid centre show ?thesis by (simp add: stoneAt_valid)
    next
      case 2
      with that f(3) show ?thesis by auto
    next
      case 3
      with that have "1 \<le> - i \<and> - i < 1 + g" by linarith
      with g(3) have "?own (- (- i))" unfolding neg by blast
      then show ?thesis by simp
    qed
  qed
  let ?r = "\<lparr> count = 1 + f + g, leftEnd = e2, rightEnd = e1, isOpen = (e2 = Num 0 \<and> e1 = Num 0) \<rparr>"
  from f(2) g(2) have res: "countConsecutive st px py p d = Inr ?r"
    by (simp add: countConsecutive_def)
  have "runThrough (board st) (boardSize st) p px py d k \<longleftrightarrow> 1 \<le> k \<and> k \<le> count ?r" for k
    using run_window [of f g ?own k, OF f(1) g(1) inside right left]
    by (simp add: runThrough_iff add.commute add.left_commute)
  with res show ?thesis by blast
qed

lemma winLineLoop_total:
  assumes "wfState st"
  shows "\<exists>l. winLineLoop st px py p d sg cnt i = Inr l"
  using assms
proof (induction st px py p d sg cnt i rule: winLineLoop.induct)
  case (1 st px py p d sg cnt i)
  let ?nx = "px + sg * dx d * i" and ?ny = "py + sg * dy d * i"
  show ?case
  proof (cases "i < cnt \<and> isValidPosition st ?nx ?ny \<and> board st ! nat ?ny ! nat ?nx = Num p")
    case False
    then show ?thesis
      using wf_getPiece [OF "1.prems", of ?nx ?ny]
      by (auto simp: winLineLoop.simps [of st px py p d sg cnt i] Let_def)
  next
    case True
    then have inb: "i < cnt" and valid: "isValidPosition st ?nx ?ny"
      and own: "board st ! nat ?ny ! nat ?nx = Num p"
      by simp_all
    note gp = wf_getPiece [OF "1.prems" valid]
    from "1.IH" [OF inb refl refl _ gp _ "1.prems"] valid own
    obtain l where "winLineLoop st px py p d sg cnt (i + 1) = Inr l"
      by auto
    with inb valid gp own show ?thesis
      by (simp add: winLineLoop.simps [of st px py p d sg cnt i] Let_def)
  qed
qed

lemma getWinLine_total:
  "wfState st \<Longrightarrow> \<exists>l. getWinLine st px py p d cnt = Inr l"
  using winLineLoop_total [of st px py p d 1 cnt 1] winLineLoop_total [of st px py p d "- 1" cnt 1]
  by (auto simp: getWinLine_def)

lemma checkWinFrom_first:
  assumes wf: "wfState st" and valid: "isValidPosition st px py"
    and centre: "board st ! nat py ! nat px = Num p" and ds: "set ds \<subseteq> set directions"
  shows "\<exists>r. checkWinFrom st px py p ds = Inr r \<and>
           (case find (\<lambda>d. runThrough (board st) (boardSize st) p px py d 5) ds of
              None \<Rightarrow> \<not> isWin r \<and> \<not> isOverline r \<and> winDirection r = None
            | Some d \<Rightarrow>
                winDirection r = Some (dirName d) \<and>
                isOverline r = (runThrough (board st) (boardSize st) p px py d 6 \<and> p = 1 \<and>
                                forbiddenRules (settings st)) \<and>
                isWin r = (\<not> isOverline r))"
  using ds
proof (induction ds)
  case Nil
  show ?case by simp
next
  case (Cons d ds)
  then have d: "d \<in> set directions" and rest: "set ds \<subseteq> set directions"
    by simp_all
  from countConsecutive_run [OF wf valid centre d]
  obtain r where r: "countConsecutive st px py p d = Inr r"
    and run: "\<And>k. runThrough (board st) (boardSize st) p px py d k \<longleftrightarrow> 1 \<le> k \<and> k \<le> count r"
    by blast
  from run [of 5] have r5: "runThrough (board st) (boardSize st) p px py d 5 \<longleftrightarrow> 5 \<le> count r"
    by simp
  from run [of 6] have r6: "runThrough (board st) (boardSize st) p px py d 6 \<longleftrightarrow> 5 < count r"
    by auto
  show ?case
  proof (cases "5 \<le> count r")
    case True
    from getWinLine_total [OF wf, of px py p d "count r"]
    obtain l where "getWinLine st px py p d (count r) = Inr l" ..
    with True r r5 r6 show ?thesis
      by (simp add: Let_def)
  next
    case False
    with r r5 Cons.IH [OF rest] show ?thesis
      by simp
  qed
qed

lemma countLoop_no_stone:
  assumes wf: "wfState st" and none: "\<And>nx ny. \<not> stoneAt (board st) (boardSize st) p nx ny"
  shows "\<exists>e. countLoop st px py p d sg i c = Inr (c, e)"
proof -
  from countLoop_scan [OF wf, of px py p d sg i c]
  obtain n e where n: "0 \<le> n" "countLoop st px py p d sg i c = Inr (c + n, e)"
    "\<forall>j. i \<le> j \<and> j < i + n \<longrightarrow>
        stoneAt (board st) (boardSize st) p (px + sg * dx d * j) (py + sg * dy d * j)"
    by blast
  have "n = 0"
  proof (rule ccontr)
    assume "n \<noteq> 0"
    with n(1) have "i \<le> i \<and> i < i + n" by linarith
    with n(3) none show False by blast
  qed
  with n(2) show ?thesis by simp
qed

lemma checkWinFrom_no_stone:
  assumes wf: "wfState st" and none: "\<And>nx ny. \<not> stoneAt (board st) (boardSize st) p nx ny"
  shows "\<exists>r. checkWinFrom st px py p ds = Inr r \<and> \<not> isWin r \<and> \<not> isOverline r"
proof (induction ds)
  case Nil
  show ?case by simp
next
  case (Cons d ds)
  from countLoop_no_stone [OF wf none, of px py d 1 1 1]
  obtain e1 where e1: "countLoop st px py p d 1 1 1 = Inr (1, e1)" ..
  from countLoop_no_stone [OF wf none, of px py d "- 1" 1 1]
  obtain e2 where e2: "countLoop st px py p d (- 1) 1 1 = Inr (1, e2)" ..
  from e1 e2 obtain r where "countConsecutive st px py p d = Inr r" "count r = 1"
    by (simp add: countConsecutive_def)
  with Cons.IH show ?case by simp
qed

lemma reset_wfState: "reset st0 = Inr s \<Longrightarrow> wfState s"
  by (cases "boardSize st0 < 0") (auto simp: reset_def wfState_def list_all_iff)

lemma reset_no_stone:
  assumes "reset st0 = Inr s" and "p \<noteq> 0"
  shows "\<not> stoneAt (board s) (boardSize s) p nx ny"
proof
  assume a: "stoneAt (board s) (boardSize s) p nx ny"
  from assms(1) have b: "board s = replicate (nat (boardSize s)) (replicate (nat (boardSize s)) (Num 0))"
    by (cases "boardSize st0 < 0") (auto simp: reset_def)
  from a have "nat nx < nat (boardSize s)" "nat ny < nat (boardSize s)"
    and "board s ! nat ny ! nat nx = Num p"
    by (auto simp: stoneAt_def)
  with b have "Num 0 = Num p"
    by (metis nth_replicate)
  with assms(2) show False by simp
qed

lemma reset_effectivePlayer: "reset st0 = Inr s \<Longrightarrow> effectivePlayer s pl \<noteq> 0"
  by (cases "boardSize st0 < 0") (auto simp: reset_def effectivePlayer_def split: option.splits)

text \<open>
  C3, as the code has it. Let \<open>(x, y)\<close> be on the board of a well-formed state and hold
  a stone of the player. \<^verbatim>\<open>checkWin\<close> returns, and its answer is decided by the first
  direction, in the order horizontal, vertical, diagDown, diagUp, that has a contiguous
  run of at least 5 stones of the player through \<open>(x, y)\<close>: the result is an overline
  (\<^verbatim>\<open>isOverline\<close> true, no win) when that run is longer than 5, the player is Black
  (player 1) and forbidden rules are enabled, and a win otherwise. When no direction has
  such a run the result is no win and no overline. On a freshly reset board the result
  is no win for every position and player.
\<close>

theorem checkWin_first_direction:
  "(wfState st \<and> isValidPosition st px py \<and>
    board st ! nat py ! nat px = Num (effectivePlayer st player) \<longrightarrow>
      (\<exists>r. checkWin st px py player = Inr r \<and>
         (case find (\<lambda>d. runThrough (board st) (boardSize st) (effectivePlayer st player) px py d 5)
                 directions of
            None \<Rightarrow> \<not> isWin r \<and> \<not> isOverline r \<and> winDirection r = None
          | Some d \<Rightarrow>
              winDirection r = Some (dirName d) \<and>
              isOverline r =
                (runThrough (board st) (boardSize st) (effectivePlayer st player) px py d 6 \<and>
                 effectivePlayer st player = 1 \<and> forbiddenRules (settings st)) \<and>
              isWin r = (\<not> isOverline r)))) \<and>
   (reset st0 = Inr s \<longrightarrow>
      (\<exists>r. checkWin s qx qy pl = Inr r \<and> \<not> isWin r \<and> \<not> isOverline r))"
proof (intro conjI impI)
  assume "wfState st \<and> isValidPosition st px py \<and>
    board st ! nat py ! nat px = Num (effectivePlayer st player)"
  then show "\<exists>r. checkWin st px py player = Inr r \<and>
         (case find (\<lambda>d. runThrough (board st) (boardSize st) (effectivePlayer st player) px py d 5)
                 directions of
            None \<Rightarrow> \<not> isWin r \<and> \<not> isOverline r \<and> winDirection r = None
          | Some d \<Rightarrow>
              winDirection r = Some (dirName d) \<and>
              isOverline r =
                (runThrough (board st) (boardSize st) (effectivePlayer st player) px py d 6 \<and>
                 effectivePlayer st player = 1 \<and> forbiddenRules (settings st)) \<and>
              isWin r = (\<not> isOverline r))"
    unfolding checkWin_def by (intro checkWinFrom_first) simp_all
next
  assume r: "reset st0 = Inr s"
  from reset_no_stone [OF r reset_effectivePlayer [OF r]]
  show "\<exists>r. checkWin s qx qy pl = Inr r \<and> \<not> isWin r \<and> \<not> isOverline r"
    unfolding checkWin_def by (intro checkWinFrom_no_stone reset_wfState [OF r]) 
qed

theorem checkWin_first_direction_witness:
  "wfState crossStateA \<and> isValidPosition crossStateA 7 7 \<and>
   board crossStateA ! nat 7 ! nat 7 = Num (effectivePlayer crossStateA (Some 1)) \<and>
   find (\<lambda>d. runThrough (board crossStateA) (boardSize crossStateA)
                (effectivePlayer crossStateA (Some 1)) 7 7 d 5) directions = Some (directions ! 0) \<and>
   winDirection (projr (checkWin crossStateA 7 7 (Some 1))) = Some ''horizontal'' \<and>
   isWin (projr (checkWin crossStateA 7 7 (Some 1))) \<and>
   reset newGameState = Inr newGameState \<and>
   \<not> isWin (projr (checkWin newGameState 7 7 None))"
proof -
  have h: "wfState crossStateA \<and> isValidPosition crossStateA 7 7 \<and>
      board crossStateA ! nat 7 ! nat 7 = Num (effectivePlayer crossStateA (Some 1))"
    by code_simp
  have f: "find (\<lambda>d. runThrough (board crossStateA) (boardSize crossStateA)
                (effectivePlayer crossStateA (Some 1)) 7 7 d 5) directions = Some (directions ! 0)"
    by code_simp
  have o: "\<not> runThrough (board crossStateA) (boardSize crossStateA)
                (effectivePlayer crossStateA (Some 1)) 7 7 (directions ! 0) 6"
    by code_simp
  have n: "dirName (directions ! 0) = ''horizontal''"
    by code_simp
  have r: "reset newGameState = Inr newGameState"
    by code_simp
  note t = checkWin_first_direction [of crossStateA 7 7 "Some 1" newGameState newGameState 7 7 None]
  from t h obtain w where w: "checkWin crossStateA 7 7 (Some 1) = Inr w"
    and c: "case find (\<lambda>d. runThrough (board crossStateA) (boardSize crossStateA)
                (effectivePlayer crossStateA (Some 1)) 7 7 d 5) directions of
            None \<Rightarrow> \<not> isWin w \<and> \<not> isOverline w \<and> winDirection w = None
          | Some d \<Rightarrow>
              winDirection w = Some (dirName d) \<and>
              isOverline w =
                (runThrough (board crossStateA) (boardSize crossStateA)
                   (effectivePlayer crossStateA (Some 1)) 7 7 d 6 \<and>
                 effectivePlayer crossStateA (Some 1) = 1 \<and> forbiddenRules (settings crossStateA)) \<and>
              isWin w = (\<not> isOverline w)"
    by blast
  from c f o n have "winDirection w = Some ''horizontal'' \<and> isWin w"
    by simp
  with w have a: "winDirection (projr (checkWin crossStateA 7 7 (Some 1))) = Some ''horizontal'' \<and>
      isWin (projr (checkWin crossStateA 7 7 (Some 1)))"
    by simp
  from t r obtain v where "checkWin newGameState 7 7 None = Inr v" "\<not> isWin v"
    by blast
  then have b: "\<not> isWin (projr (checkWin newGameState 7 7 None))"
    by simp
  from h f a r b show ?thesis
    by simp
qed

text \<open>
  The claim as stated speaks of "some direction" and of "the run". In \<open>crossStateA\<close>,
  with forbidden rules enabled, a black run of six goes through (7,7), yet
  \<^verbatim>\<open>checkWin\<close> reports a win and no overline, because the horizontal run of five is
  met first. In \<open>crossStateB\<close> a black run of exactly five goes through (7,7), yet
  \<^verbatim>\<open>checkWin\<close> reports no win, because the horizontal run of six is met first.
\<close>

theorem checkWin_some_direction_counterexample:
  "checkWin crossStateA 7 7 (Some 1) = Inr (projr (checkWin crossStateA 7 7 (Some 1))) \<and>
   isWin (projr (checkWin crossStateA 7 7 (Some 1))) \<and>
   \<not> isOverline (projr (checkWin crossStateA 7 7 (Some 1))) \<and>
   runThrough (board crossStateA) 15 1 7 7 (directions ! 1) 6 \<and>
   forbiddenRules (settings crossStateA) \<and>
   checkWin crossStateB 7 7 (Some 1) = Inr (projr (checkWin crossStateB 7 7 (Some 1))) \<and>
   \<not> isWin (projr (checkWin crossStateB 7 7 (Some 1))) \<and>
   runThrough (board crossStateB) 15 1 7 7 (directions ! 1) 5 \<and>
   \<not> runThrough (board crossStateB) 15 1 7 7 (directions ! 1) 6 \<and>
   forbiddenRules (settings crossStateB)"
  by code_simp

section \<open>detectForbidden\<close>

lemma board15_boardAt:
  assumes "board15 b" "0 \<le> nx" "nx < 15" "0 \<le> ny" "ny < 15"
  shows "boardAt b nx ny = Inr (b ! nat ny ! nat nx)"
proof -
  from assms have "nat ny < length b"
    by (simp add: board15_def)
  with assms(1) have "length (b ! nat ny) = 15"
    by (simp add: board15_def list_all_length)
  with assms show ?thesis
    by (simp add: boardAt_def board15_def)
qed

lemma overlineLoop_scan:
  assumes "board15 b"
  shows "\<exists>n. 0 \<le> n \<and> overlineLoop b px py d sg i c = Inr (c + n) \<and>
           (\<forall>j. i \<le> j \<and> j < i + n \<longrightarrow>
                stoneAt b 15 1 (px + sg * dx d * j) (py + sg * dy d * j)) \<and>
           (i + n < 15 \<longrightarrow>
                \<not> stoneAt b 15 1 (px + sg * dx d * (i + n)) (py + sg * dy d * (i + n)))"
  using assms
proof (induction b px py d sg i c rule: overlineLoop.induct)
  case (1 b px py d sg i c)
  let ?own = "\<lambda>j. stoneAt b 15 1 (px + sg * dx d * j) (py + sg * dy d * j)"
  let ?nx = "px + sg * dx d * i" and ?ny = "py + sg * dy d * i"
  let ?off = "?nx < 0 \<or> ?nx \<ge> 15 \<or> ?ny < 0 \<or> ?ny \<ge> 15"
  have stop: "\<exists>n. 0 \<le> n \<and> Inr c = Inr (c + n) \<and>
           (\<forall>j. i \<le> j \<and> j < i + n \<longrightarrow> ?own j) \<and> (i + n < 15 \<longrightarrow> \<not> ?own (i + n))"
    if "i < 15 \<longrightarrow> \<not> ?own i"
    using that by (intro exI [of _ 0]) auto
  show ?case
  proof (cases "i < 15")
    case False
    then have "overlineLoop b px py d sg i c = Inr c"
      by (simp add: overlineLoop.simps [of b px py d sg i c])
    with stop False show ?thesis by simp
  next
    case inb: True
    show ?thesis
    proof (cases ?off)
      case True
      with inb have "overlineLoop b px py d sg i c = Inr c"
        by (simp add: overlineLoop.simps [of b px py d sg i c] Let_def)
      moreover from True have "\<not> ?own i"
        by (auto simp: stoneAt_def)
      ultimately show ?thesis using stop by simp
    next
      case on: False
      then have at: "boardAt b ?nx ?ny = Inr (b ! nat ?ny ! nat ?nx)"
        by (intro board15_boardAt "1.prems") simp_all
      show ?thesis
      proof (cases "b ! nat ?ny ! nat ?nx = Num 1")
        case False
        with inb on at have "overlineLoop b px py d sg i c = Inr c"
          by (simp add: overlineLoop.simps [of b px py d sg i c] Let_def)
        moreover from False have "\<not> ?own i"
          by (simp add: stoneAt_def)
        ultimately show ?thesis using stop by simp
      next
        case own: True
        with inb on at have unfold: "overlineLoop b px py d sg i c = overlineLoop b px py d sg (i + 1) (c + 1)"
          by (simp add: overlineLoop.simps [of b px py d sg i c] Let_def)
        from own on have owni: "?own i"
          by (simp add: stoneAt_def)
        from "1.IH" [OF inb refl refl on at _ "1.prems"] own
        obtain n where n: "0 \<le> n" "overlineLoop b px py d sg (i + 1) (c + 1) = Inr (c + 1 + n)"
          "\<forall>j. i + 1 \<le> j \<and> j < i + 1 + n \<longrightarrow> ?own j"
          "i + 1 + n < 15 \<longrightarrow> \<not> ?own (i + 1 + n)"
          by auto
        have all: "\<forall>j. i \<le> j \<and> j < i + (n + 1) \<longrightarrow> ?own j"
        proof (intro allI impI)
          fix j assume "i \<le> j \<and> j < i + (n + 1)"
          then consider "j = i" | "i + 1 \<le> j \<and> j < i + 1 + n" by linarith
          then show "?own j" using owni n(3) by cases auto
        qed
        have eq: "i + (n + 1) = i + 1 + n"
          by simp
        from n(4) have last: "i + (n + 1) < 15 \<longrightarrow> \<not> ?own (i + (n + 1))"
          unfolding eq .
        from n(1) have "0 \<le> n + 1" by simp
        moreover from unfold n(2) have "overlineLoop b px py d sg i c = Inr (c + (n + 1))"
          by simp
        ultimately show ?thesis using all last by blast
      qed
    qed
  qed
qed


lemma overline_count_run:
  assumes b15: "board15 b" and c: "0 \<le> px" "px < 15" "0 \<le> py" "py < 15"
    and centre: "b ! nat py ! nat px = Num 1" and d: "d \<in> set directions"
  shows "\<exists>c1 c2. overlineLoop b px py d 1 1 1 = Inr c1 \<and>
           overlineLoop b px py d (- 1) 1 c1 = Inr c2 \<and>
           (\<forall>k. runThrough b 15 1 px py d k \<longleftrightarrow> 1 \<le> k \<and> k \<le> c2)"
proof -
  let ?own = "\<lambda>j. stoneAt b 15 1 (px + dx d * j) (py + dy d * j)"
  note far = off_board_far [OF d c, of _ b 1]
  from overlineLoop_scan [OF b15, of px py d 1 1 1]
  obtain f where f: "0 \<le> f" "overlineLoop b px py d 1 1 1 = Inr (1 + f)"
    "\<forall>j. 1 \<le> j \<and> j < 1 + f \<longrightarrow> ?own j"
    "1 + f < 15 \<longrightarrow> \<not> ?own (1 + f)"
    by auto
  from overlineLoop_scan [OF b15, of px py d "- 1" 1 "1 + f"]
  obtain g where g: "0 \<le> g" "overlineLoop b px py d (- 1) 1 (1 + f) = Inr (1 + f + g)"
    "\<forall>j. 1 \<le> j \<and> j < 1 + g \<longrightarrow> stoneAt b 15 1 (px - dx d * j) (py - dy d * j)"
    "1 + g < 15 \<longrightarrow> \<not> stoneAt b 15 1 (px - dx d * (1 + g)) (py - dy d * (1 + g))"
    by auto
  have neg: "?own (- j) = stoneAt b 15 1 (px - dx d * j) (py - dy d * j)" for j
    by simp
  have right: "\<not> ?own (f + 1)"
  proof (cases "1 + f < 15")
    case True
    with f(4) show ?thesis by (simp add: add.commute)
  next
    case False
    with f(1) have "15 \<le> \<bar>f + 1\<bar>" by linarith
    then show ?thesis by (rule far)
  qed
  have left: "\<not> ?own (- g - 1)"
  proof (cases "1 + g < 15")
    case True
    have e: "- g - 1 = - (1 + g)" by simp
    show ?thesis unfolding e neg using True g(4) by blast
  next
    case False
    with g(1) have "15 \<le> \<bar>- g - 1\<bar>" by linarith
    then show ?thesis by (rule far)
  qed
  have inside: "?own i" if "- g \<le> i" "i \<le> f" for i
  proof -
    consider "i = 0" | "1 \<le> i" | "1 \<le> - i" by linarith
    then show ?thesis
    proof cases
      case 1
      with c centre show ?thesis by (simp add: stoneAt_def)
    next
      case 2
      with that f(3) show ?thesis by auto
    next
      case 3
      with that have "1 \<le> - i \<and> - i < 1 + g" by linarith
      with g(3) have "?own (- (- i))" unfolding neg by blast
      then show ?thesis by simp
    qed
  qed
  have "runThrough b 15 1 px py d k \<longleftrightarrow> 1 \<le> k \<and> k \<le> 1 + f + g" for k
    using run_window [of f g ?own k, OF f(1) g(1) inside right left]
    by (simp add: runThrough_iff add.commute add.left_commute)
  with f(2) g(2) show ?thesis by blast
qed

lemma checkOverlineFrom_run:
  assumes b15: "board15 b" and c: "0 \<le> px" "px < 15" "0 \<le> py" "py < 15"
    and centre: "b ! nat py ! nat px = Num 1" and ds: "set ds \<subseteq> set directions"
  shows "\<exists>r. checkOverlineFrom b px py ds = Inr r \<and>
           (ovIsOverline r \<longleftrightarrow> (\<exists>d \<in> set ds. runThrough b 15 1 px py d 6))"
  using ds
proof (induction ds)
  case Nil
  show ?case by simp
next
  case (Cons d ds)
  then have d: "d \<in> set directions" and rest: "set ds \<subseteq> set directions"
    by simp_all
  from overline_count_run [OF b15 c centre d]
  obtain c1 c2 where l: "overlineLoop b px py d 1 1 1 = Inr c1"
      "overlineLoop b px py d (- 1) 1 c1 = Inr c2"
    and run: "\<And>k. runThrough b 15 1 px py d k \<longleftrightarrow> 1 \<le> k \<and> k \<le> c2"
    by blast
  from run [of 6] have r6: "runThrough b 15 1 px py d 6 \<longleftrightarrow> 5 < c2"
    by auto
  show ?case
  proof (cases "5 < c2")
    case True
    with l r6 show ?thesis by simp
  next
    case False
    with l r6 Cons.IH [OF rest] show ?thesis by simp
  qed
qed

lemma lineCell_total: "board15 b \<Longrightarrow> \<exists>t. lineCell b player nx ny = Inr t"
  by (cases "nx < 0 \<or> nx \<ge> 15 \<or> ny < 0 \<or> ny \<ge> 15")
     (simp_all add: lineCell_def board15_boardAt)

lemma collect_total: "(\<forall>r \<in> set rs. \<exists>v. r = Inr v) \<Longrightarrow> \<exists>vs. collect rs = Inr vs"
proof (induction rs)
  case Nil
  show ?case by simp
next
  case (Cons r rs)
  then obtain v vs where "r = Inr v" "collect rs = Inr vs"
    by auto
  then show ?case by simp
qed

lemma getLinePattern_total: "board15 b \<Longrightarrow> \<exists>line. getLinePattern b px py player d = Inr line"
  unfolding getLinePattern_def
  by (rule collect_total) (use lineCell_total in auto)

lemma analyze_classify:
  assumes "board15 b"
  shows "\<exists>pat. analyzeDirectionPatternOnBoard b px py 1 d = Inr pat \<and>
           classifyBlack b px py d = map_option patType pat"
proof -
  from getLinePattern_total [OF assms, of px py 1 d]
  obtain line where "getLinePattern b px py 1 d = Inr line" ..
  then show ?thesis
    by (cases "matchPattern line") (auto simp: analyzeDirectionPatternOnBoard_def classifyBlack_def)
qed

lemma patternsWhere_count:
  assumes "board15 b"
  shows "\<exists>l. patternsWhere keep b px py ds = Inr l \<and>
           length l = length (filter (\<lambda>d. case classifyBlack b px py d of None \<Rightarrow> False
                                           | Some t \<Rightarrow> keep t) ds)"
proof (induction ds)
  case Nil
  show ?case by simp
next
  case (Cons d ds)
  from analyze_classify [OF assms, of px py d]
  obtain pat where pat: "analyzeDirectionPatternOnBoard b px py 1 d = Inr pat"
    "classifyBlack b px py d = map_option patType pat"
    by blast
  from Cons.IH obtain l where l: "patternsWhere keep b px py ds = Inr l"
    "length l = length (filter (\<lambda>d. case classifyBlack b px py d of None \<Rightarrow> False
                                           | Some t \<Rightarrow> keep t) ds)"
    by blast
  from pat l show ?case
    by (cases pat) auto
qed


lemma board15_update:
  assumes "board15 b" "0 \<le> px" "px < 15" "0 \<le> py" "py < 15"
  shows "boardSet b px py v = Inr (b[nat py := (b ! nat py)[nat px := v]])"
    and "board15 (b[nat py := (b ! nat py)[nat px := v]])"
    and "(b[nat py := (b ! nat py)[nat px := v]]) ! nat py ! nat px = v"
proof -
  from assms have y: "nat py < length b" "py < int (length b)"
    by (simp_all add: board15_def)
  with assms(1) have x: "length (b ! nat py) = 15"
    by (simp add: board15_def list_all_length)
  with assms y show "boardSet b px py v = Inr (b[nat py := (b ! nat py)[nat px := v]])"
    by (simp add: boardSet_in_range)
  from assms(1) x show "board15 (b[nat py := (b ! nat py)[nat px := v]])"
    by (auto simp: board15_def list_all_length nth_list_update)
  from assms y x show "(b[nat py := (b ! nat py)[nat px := v]]) ! nat py ! nat px = v"
    by simp
qed

text \<open>
  On a 15 by 15 board \<^verbatim>\<open>detectForbidden\<close> does what C4 says: with the black stone
  placed at \<open>(x, y)\<close>, the list of violation types is OVERLINE exactly when some
  direction has a black run of 6 or more through \<open>(x, y)\<close>, then DOUBLE_THREE exactly
  when two or more directions are classified live three, then DOUBLE_FOUR exactly when
  two or more directions are classified live four or rush four; the move is forbidden
  exactly when the list is not empty.
\<close>

lemma detectForbidden_on_board15:
  assumes b15: "board15 (board st)" and c: "0 \<le> px" "px < 15" "0 \<le> py" "py < 15"
  shows "\<exists>r. detectForbidden st px py = Inr r \<and>
    map violationType (types r) =
      (if \<exists>d \<in> set directions.
            runThrough ((board st)[nat py := (board st ! nat py)[nat px := Num 1]]) 15 1 px py d 6
       then [''OVERLINE''] else []) @
      (if 2 \<le> length (filter (\<lambda>d. classifyBlack
            ((board st)[nat py := (board st ! nat py)[nat px := Num 1]]) px py d = Some LiveThree)
            directions)
       then [''DOUBLE_THREE''] else []) @
      (if 2 \<le> length (filter (\<lambda>d.
            classifyBlack ((board st)[nat py := (board st ! nat py)[nat px := Num 1]]) px py d
              = Some LiveFour \<or>
            classifyBlack ((board st)[nat py := (board st ! nat py)[nat px := Num 1]]) px py d
              = Some RushFour) directions)
       then [''DOUBLE_FOUR''] else []) \<and>
    isForbidden r = (types r \<noteq> [])"
proof -
  let ?tb = "(board st)[nat py := (board st ! nat py)[nat px := Num 1]]"
  note u = board15_update [OF b15 c, of "Num 1"]
  from checkOverlineFrom_run [OF u(2) c u(3) subset_refl]
  obtain ov where ov: "checkOverline ?tb px py = Inr ov"
    "ovIsOverline ov \<longleftrightarrow> (\<exists>d \<in> set directions. runThrough ?tb 15 1 px py d 6)"
    unfolding checkOverline_def by blast
  have f3: "(\<lambda>d. case classifyBlack ?tb px py d of None \<Rightarrow> False | Some t \<Rightarrow> t = LiveThree) =
            (\<lambda>d. classifyBlack ?tb px py d = Some LiveThree)"
    by (auto split: option.splits)
  have f4: "(\<lambda>d. case classifyBlack ?tb px py d of None \<Rightarrow> False
                   | Some t \<Rightarrow> t = LiveFour \<or> t = RushFour) =
            (\<lambda>d. classifyBlack ?tb px py d = Some LiveFour \<or>
                  classifyBlack ?tb px py d = Some RushFour)"
    by (auto split: option.splits)
  from patternsWhere_count [OF u(2), of "\<lambda>t. t = LiveThree" px py directions]
  obtain l3 where l3: "patternsWhere (\<lambda>t. t = LiveThree) ?tb px py directions = Inr l3"
    "length l3 = length (filter (\<lambda>d. classifyBlack ?tb px py d = Some LiveThree) directions)"
    unfolding f3 by blast
  from patternsWhere_count [OF u(2), of "\<lambda>t. t = LiveFour \<or> t = RushFour" px py directions]
  obtain l4 where l4: "patternsWhere (\<lambda>t. t = LiveFour \<or> t = RushFour) ?tb px py directions = Inr l4"
    "length l4 = length (filter (\<lambda>d. classifyBlack ?tb px py d = Some LiveFour \<or>
                  classifyBlack ?tb px py d = Some RushFour) directions)"
    unfolding f4 by blast
  from u(1) ov(1) l3(1) l4(1) obtain r where
    r: "detectForbidden st px py = Inr r"
    and t: "types r = (if ovIsOverline ov then [OVERLINE ov] else []) @
      (if 2 \<le> length l3 then [DOUBLE_THREE \<lparr> isDouble = (2 \<le> length l3), found = l3,
                                                foundCount = int (length l3) \<rparr>] else []) @
      (if 2 \<le> length l4 then [DOUBLE_FOUR \<lparr> isDouble = (2 \<le> length l4), found = l4,
                                               foundCount = int (length l4) \<rparr>] else [])"
    and f: "isForbidden r = (length (types r) > 0)"
    by (simp add: detectForbidden_def checkDoubleThree_def checkDoubleFour_def Let_def)
  from t ov(2) l3(2) l4(2) have "map violationType (types r) =
      (if \<exists>d \<in> set directions. runThrough ?tb 15 1 px py d 6 then [''OVERLINE''] else []) @
      (if 2 \<le> length (filter (\<lambda>d. classifyBlack ?tb px py d = Some LiveThree) directions)
       then [''DOUBLE_THREE''] else []) @
      (if 2 \<le> length (filter (\<lambda>d. classifyBlack ?tb px py d = Some LiveFour \<or>
            classifyBlack ?tb px py d = Some RushFour) directions)
       then [''DOUBLE_FOUR''] else [])"
    by simp
  with r f show ?thesis by simp
qed

text \<open>
  C4. \<^verbatim>\<open>detectForbidden\<close> should report an overline exactly when some direction has
  a contiguous black run longer than 5 through \<open>(x, y)\<close>, on every board. The loops of
  \<^verbatim>\<open>_checkOverline\<close> stop at the literal bound 15, not at the board size of the game.
  In the 19 by 19 game \<open>bigState\<close> the cell (15,0) is empty and on the board, and a
  black stone there completes the run (12,0) to (17,0) of six. \<^verbatim>\<open>detectForbidden\<close>
  counts only (12,0) to (15,0) and reports no violation, \<^verbatim>\<open>validateMove\<close> accepts the
  move, and once the move is made \<^verbatim>\<open>checkWin\<close>, which uses the board size of the
  game, reports the overline.
\<close>

theorem detectForbidden_misses_overline_on_19:
  "wfState bigState \<and> boardSize bigState = 19 \<and> currentPlayer bigState = 1 \<and>
   forbiddenRules (settings bigState) \<and>
   getPiece bigState 15 0 = Inr (Num 0) \<and>
   runThrough (projr (boardSet (board bigState) 15 0 (Num 1))) 19 1 15 0 (directions ! 0) 6 \<and>
   detectForbidden bigState 15 0 = Inr \<lparr> isForbidden = False, types = [], primaryType = None \<rparr> \<and>
   valid (validateMove bigState 15 0) \<and>
   map_sum id isOverline (checkWin (snd (applyMove bigState 15 0 11 11)) 15 0 None) = Inr True"
  by code_simp

section \<open>The search leaves the caller's game state alone\<close>

lemma prefix_update_above: "prefix xs ys \<Longrightarrow> length xs \<le> r \<Longrightarrow> prefix xs (ys[r := v])"
  by (auto simp: prefix_def list_update_append)

lemma prefix_nth: "prefix xs ys \<Longrightarrow> i < length xs \<Longrightarrow> ys ! i = xs ! i"
  by (auto simp: prefix_def nth_append)

lemma extends_refl: "extends s s"
  by (simp add: extends_def)

lemma extends_trans: "extends b s \<Longrightarrow> extends s s' \<Longrightarrow> extends b s'"
  unfolding extends_def by (meson prefix_order.trans)

lemma extends_lengths:
  assumes "extends b s"
  shows "length (rowHeap b) \<le> length (rowHeap s)" "length (boardHeap b) \<le> length (boardHeap s)"
    "length (histHeap b) \<le> length (histHeap s)" "length (objHeap b) \<le> length (objHeap s)"
  using assms by (simp_all add: extends_def prefix_length_le)

lemma getSnapshot_store:
  "rowHeap (snd (getSnapshot s g)) =
     rowHeap s @ map (\<lambda>r. rowHeap s ! r) (boardHeap s ! oBoard (objHeap s ! g))"
  "boardHeap (snd (getSnapshot s g)) =
     boardHeap s @ [[length (rowHeap s) ..<
                     length (rowHeap s) + length (boardHeap s ! oBoard (objHeap s ! g))]]"
  "histHeap (snd (getSnapshot s g)) = histHeap s @ [histHeap s ! oMoveHistory (objHeap s ! g)]"
  "objHeap (snd (getSnapshot s g)) = objHeap s"
  "oBoard (fst (getSnapshot s g)) = length (boardHeap s)"
  "oMoveHistory (fst (getSnapshot s g)) = length (histHeap s)"
  by (simp_all add: getSnapshot_def Let_def)

lemma getSnapshot_extends: "extends s (snd (getSnapshot s g))"
  by (simp add: extends_def getSnapshot_store)

lemma createTempState_eq:
  "createTempState s g =
     (length (objHeap s),
      (snd (getSnapshot s g))\<lparr> objHeap := objHeap s @ [fst (getSnapshot s g)] \<rparr>)"
  using getSnapshot_store(4) [of s g]
  by (cases "getSnapshot s g") (simp add: createTempState_def)

lemma createTempState_store:
  assumes "createTempState s g = (t, s')"
  shows "t = length (objHeap s)"
    and "rowHeap s' = rowHeap (snd (getSnapshot s g))"
    and "boardHeap s' = boardHeap (snd (getSnapshot s g))"
    and "histHeap s' = histHeap (snd (getSnapshot s g))"
    and "objHeap s' = objHeap s @ [fst (getSnapshot s g)]"
  using assms unfolding createTempState_eq by auto

lemma createTempState_extends: "createTempState s g = (t, s') \<Longrightarrow> extends s s'"
  by (simp add: extends_def createTempState_store getSnapshot_store)

lemma tempAbove_later:
  assumes "tempAbove b s t" "extends s s'"
  shows "tempAbove b s' t"
proof -
  from assms(1) have t: "t < length (objHeap s)" and bd: "oBoard (objHeap s ! t) < length (boardHeap s)"
    by (simp_all add: tempAbove_def)
  from assms(2) have po: "prefix (objHeap s) (objHeap s')" and pb: "prefix (boardHeap s) (boardHeap s')"
    by (simp_all add: extends_def)
  from prefix_nth [OF po t] have o: "objHeap s' ! t = objHeap s ! t" .
  from prefix_nth [OF pb bd] have b: "boardHeap s' ! oBoard (objHeap s ! t) = boardHeap s ! oBoard (objHeap s ! t)" .
  from assms extends_lengths [OF assms(2)] show ?thesis
    by (simp add: tempAbove_def o b)
qed

lemma createTempState_tempAbove:
  assumes c: "createTempState s g = (t, s')" and e: "extends b s"
  shows "tempAbove b s' t"
proof -
  note st = createTempState_store [OF c]
  note len = extends_lengths [OF e]
  have o: "objHeap s' ! t = fst (getSnapshot s g)"
    by (simp add: st)
  have rows: "boardHeap s' ! length (boardHeap s) =
      [length (rowHeap s) ..< length (rowHeap s) + length (boardHeap s ! oBoard (objHeap s ! g))]"
    by (simp add: st getSnapshot_store)
  from len show ?thesis
    by (auto simp: tempAbove_def o getSnapshot_store rows list_all_iff st(1) st(3,5))
qed

lemma goodAt_createTempState:
  assumes "goodAt b T s" "createTempState s g = (t, s')"
  shows "goodAt b (insert t T) s'"
proof -
  from assms(1) have e: "extends b s" and old: "\<And>u. u \<in> T \<Longrightarrow> tempAbove b s u"
    by (simp_all add: goodAt_def)
  note e' = createTempState_extends [OF assms(2)]
  from extends_trans [OF e e'] createTempState_tempAbove [OF assms(2) e]
    tempAbove_later [OF old e']
  show ?thesis
    by (auto simp: goodAt_def)
qed

lemma goodAt_getSnapshot: "goodAt b T s \<Longrightarrow> goodAt b T (snd (getSnapshot s g))"
  using getSnapshot_extends [of s g]
  by (auto simp: goodAt_def intro: extends_trans tempAbove_later)

lemma goodAt_setCurrentPlayer:
  assumes "goodAt b T s" "t \<in> T"
  shows "goodAt b T (setCurrentPlayer s t p)"
proof -
  from assms have e: "extends b s" and ta: "tempAbove b s t"
    by (simp_all add: goodAt_def)
  from ta have above: "length (objHeap b) \<le> t"
    by (simp add: tempAbove_def)
  from e above have e': "extends b (setCurrentPlayer s t p)"
    by (simp add: extends_def setCurrentPlayer_def prefix_update_above)
  have "tempAbove b (setCurrentPlayer s t p) u" if "tempAbove b s u" for u
    using that by (cases "u = t") (simp_all add: tempAbove_def setCurrentPlayer_def)
  with assms(1) e' show ?thesis
    by (simp add: goodAt_def)
qed


lemma applyMoveH_store:
  assumes "applyMoveH s t px py tMove tStart = (r, s')"
  shows "s' = s \<or>
     (\<exists>rowRef row h ob'.
        rowRef \<in> set (boardHeap s ! oBoard (objHeap s ! t)) \<and>
        oBoard ob' = oBoard (objHeap s ! t) \<and> oMoveHistory ob' = oMoveHistory (objHeap s ! t) \<and>
        s' = s\<lparr> rowHeap := (rowHeap s)[rowRef := row],
                histHeap := (histHeap s)[oMoveHistory (objHeap s ! t) := h],
                objHeap := (objHeap s)[t := ob'] \<rparr>)"
proof (cases "s' = s")
  case True
  then show ?thesis ..
next
  case False
  with assms have at: "boardAt (board (stateOf s t)) px py = Inr (Num 0)"
    by (auto simp: applyMoveH_def Let_def split: if_splits sum.splits)
  from boardAt_Inr_Num_iff [OF at]
  have "0 \<le> py \<and> py < int (length (boardHeap s ! oBoard (objHeap s ! t)))"
    by (simp add: stateOf_def Let_def)
  then have "nat py < length (boardHeap s ! oBoard (objHeap s ! t))"
    by linarith
  then have "boardHeap s ! oBoard (objHeap s ! t) ! nat py \<in> set (boardHeap s ! oBoard (objHeap s ! t))"
    by simp
  moreover
  let ?ob = "objHeap s ! t"
  let ?ob1 = "?ob\<lparr> oMoveCount := oMoveCount ?ob + 1 \<rparr>"
  let ?ob2 = "if oGameStatus ?ob1 = ''ready''
              then ?ob1\<lparr> oGameStatus := ''playing'', oStartTime := Some tStart \<rparr> else ?ob1"
  let ?rowRef = "boardHeap s ! oBoard ?ob ! nat py"
  let ?row = "rowSet (rowHeap s ! ?rowRef) px (Num (currentPlayer (stateOf s t)))"
  let ?h = "histHeap s ! oMoveHistory ?ob @
              [\<lparr> move_x = px, move_y = py, move_player = currentPlayer (stateOf s t),
                 move_step = moveCount (stateOf s t) + 1, move_timestamp = tMove,
                 move_number = int (length (moveHistory (stateOf s t))) + 1 \<rparr>]"
  from assms False at have "s' = s\<lparr> rowHeap := (rowHeap s)[?rowRef := ?row],
                histHeap := (histHeap s)[oMoveHistory ?ob := ?h],
                objHeap := (objHeap s)[t := ?ob2] \<rparr>"
    by (simp add: applyMoveH_def Let_def split: if_splits)
  moreover have "oBoard ?ob2 = oBoard ?ob \<and> oMoveHistory ?ob2 = oMoveHistory ?ob"
    by simp
  ultimately show ?thesis
    by blast
qed

lemma goodAt_applyMoveH:
  assumes g: "goodAt b T s" and t: "t \<in> T" and a: "applyMoveH s t px py tMove tStart = (r, s')"
  shows "goodAt b T s'"
proof -
  from applyMoveH_store [OF a] show ?thesis
  proof
    assume "s' = s"
    with g show ?thesis by simp
  next
    assume "\<exists>rowRef row h ob'.
        rowRef \<in> set (boardHeap s ! oBoard (objHeap s ! t)) \<and>
        oBoard ob' = oBoard (objHeap s ! t) \<and> oMoveHistory ob' = oMoveHistory (objHeap s ! t) \<and>
        s' = s\<lparr> rowHeap := (rowHeap s)[rowRef := row],
                histHeap := (histHeap s)[oMoveHistory (objHeap s ! t) := h],
                objHeap := (objHeap s)[t := ob'] \<rparr>"
    then obtain rowRef row h ob' where
      rr: "rowRef \<in> set (boardHeap s ! oBoard (objHeap s ! t))"
      and ob: "oBoard ob' = oBoard (objHeap s ! t)" "oMoveHistory ob' = oMoveHistory (objHeap s ! t)"
      and s': "s' = s\<lparr> rowHeap := (rowHeap s)[rowRef := row],
                histHeap := (histHeap s)[oMoveHistory (objHeap s ! t) := h],
                objHeap := (objHeap s)[t := ob'] \<rparr>"
      by blast
    from g t have e: "extends b s" and ta: "tempAbove b s t"
      by (simp_all add: goodAt_def)
    from ta rr have above: "length (objHeap b) \<le> t" "length (rowHeap b) \<le> rowRef"
      "length (histHeap b) \<le> oMoveHistory (objHeap s ! t)"
      by (auto simp: tempAbove_def list_all_iff)
    from e above have e': "extends b s'"
      by (simp add: extends_def s' prefix_update_above)
    have "tempAbove b s' u" if "tempAbove b s u" for u
      using that ob by (cases "u = t") (simp_all add: tempAbove_def s')
    with g e' show ?thesis
      by (simp add: goodAt_def)
  qed
qed

lemma keeps_returnM: "keeps b T (returnM v)"
  by (simp add: keeps_def returnM_def)

lemma keeps_throwM: "keeps b T (throwM e)"
  by (simp add: keeps_def throwM_def)

lemma keeps_nowM: "keeps b T (nowM env)"
  by (auto simp: keeps_def nowM_def)

lemma keeps_dateNowM: "keeps b T (dateNowM env)"
  by (auto simp: keeps_def dateNowM_def)

lemma keeps_randomM: "keeps b T (randomM env)"
  by (auto simp: keeps_def randomM_def)

lemma keeps_ruleM: "keeps b T (ruleM g f)"
  by (simp add: keeps_def ruleM_def)

lemma keeps_bindM:
  assumes "keeps b T m" and "\<And>v. keeps b T (f v)"
  shows "keeps b T (bindM m f)"
  unfolding keeps_def
proof (intro allI impI)
  fix a r a'
  assume good: "goodAt b T (heap a)" and run: "bindM m f a = (r, a')"
  obtain r1 a1 where m: "m a = (r1, a1)"
    by (cases "m a")
  with assms(1) good have g1: "goodAt b T (heap a1)"
    unfolding keeps_def by blast
  show "goodAt b T (heap a')"
  proof (cases r1)
    case (Inl e)
    with run m have "a' = a1"
      by (simp add: bindM_def)
    with g1 show ?thesis by simp
  next
    case (Inr v)
    with run m have "f v a1 = (r, a')"
      by (simp add: bindM_def)
    with assms(2) [of v] g1 show ?thesis
      unfolding keeps_def by blast
  qed
qed

lemma goodAt_subset: "goodAt b T s \<Longrightarrow> T' \<subseteq> T \<Longrightarrow> goodAt b T' s"
  by (auto simp: goodAt_def)

lemma keeps_createTempStateM:
  assumes "\<And>t. keeps b (insert t T) (f t)"
  shows "keeps b T (bindM (createTempStateM g) f)"
  unfolding keeps_def
proof (intro allI impI)
  fix a r a'
  assume good: "goodAt b T (heap a)" and run: "bindM (createTempStateM g) f a = (r, a')"
  obtain t s1 where c: "createTempState (heap a) g = (t, s1)"
    by (cases "createTempState (heap a) g")
  with run have f: "f t (a\<lparr> heap := s1 \<rparr>) = (r, a')"
    by (simp add: bindM_def createTempStateM_def)
  from goodAt_createTempState [OF good c] have "goodAt b (insert t T) (heap (a\<lparr> heap := s1 \<rparr>))"
    by simp
  with assms [of t] f have "goodAt b (insert t T) (heap a')"
    unfolding keeps_def by blast
  then show "goodAt b T (heap a')"
    by (rule goodAt_subset) blast
qed

lemma keeps_applyMoveM: "t \<in> T \<Longrightarrow> keeps b T (applyMoveM env t px py)"
  unfolding applyMoveM_def
  by (intro keeps_bindM keeps_dateNowM)
     (auto simp: keeps_def split: prod.splits dest: goodAt_applyMoveH)

lemma keeps_setCurrentPlayerM: "t \<in> T \<Longrightarrow> keeps b T (setCurrentPlayerM t p)"
  by (simp add: keeps_def setCurrentPlayerM_def goodAt_setCurrentPlayer)

lemma keeps_mapM: "(\<And>v. keeps b T (f v)) \<Longrightarrow> keeps b T (mapM f vs)"
  by (induction vs) (auto intro!: keeps_bindM keeps_returnM)

lemma keeps_foldM: "(\<And>v acc. keeps b T (body v acc)) \<Longrightarrow> keeps b T (foldM body vs acc)"
  by (induction vs arbitrary: acc) (auto intro!: keeps_bindM keeps_returnM)

lemma keeps_evaluateBasicPosition: "keeps b T (evaluateBasicPosition g px py)"
  unfolding evaluateBasicPosition_def Let_def
  by (intro keeps_bindM keeps_ruleM keeps_createTempStateM keeps_setCurrentPlayerM keeps_returnM)
     simp



lemma keeps_if:
  "(c \<Longrightarrow> keeps b T m) \<Longrightarrow> (\<not> c \<Longrightarrow> keeps b T m') \<Longrightarrow> keeps b T (if c then m else m')"
  by simp

lemma keeps_case_prod: "(\<And>v w. keeps b T (f v w)) \<Longrightarrow> keeps b T (case p of (v, w) \<Rightarrow> f v w)"
  by (cases p) simp

lemma keeps_case_nat:
  "(n = 0 \<Longrightarrow> keeps b T m) \<Longrightarrow> (\<And>d. n = Suc d \<Longrightarrow> keeps b T (f d)) \<Longrightarrow>
     keeps b T (case n of 0 \<Rightarrow> m | Suc d \<Rightarrow> f d)"
  by (cases n) simp_all

lemma keeps_scored:
  "keeps b T (mapM (\<lambda>(mx, my). bindM (evaluateBasicPosition g mx my) (\<lambda>sc. returnM (mx, my, sc))) moves)"
  by (intro keeps_mapM keeps_case_prod keeps_bindM keeps_evaluateBasicPosition keeps_returnM)

lemma keeps_minimax:
  "\<forall>T. keeps b T (minimaxSearch env g depth isMaximizing alpha beta timeLimit)"
  "\<forall>T. keeps b T (minimaxLoop env g depth isMaximizing started timeLimit moves acc)"
proof (induction env g depth isMaximizing alpha beta timeLimit
         and env g depth isMaximizing started timeLimit moves acc
       rule: minimaxSearch_minimaxLoop.induct)
  case (1 env g depth isMaximizing alpha beta timeLimit)
  show ?case
  proof
    fix T
    show "keeps b T (minimaxSearch env g depth isMaximizing alpha beta timeLimit)"
      unfolding minimaxSearch.simps [of env g depth isMaximizing alpha beta timeLimit]
      by (intro keeps_bindM keeps_nowM keeps_ruleM keeps_if keeps_returnM keeps_scored
            "1.IH" [rule_format])
  qed
next
  case (2 env g depth isMaximizing started timeLimit acc)
  show ?case
    by (simp add: minimaxLoop.simps keeps_returnM)
next
  case (3 env g depth isMaximizing started timeLimit move rest acc)
  obtain mx my sc where move: "move = (mx, my, sc)"
    by (cases move)
  show ?case
  proof
    fix T
    show "keeps b T (minimaxLoop env g depth isMaximizing started timeLimit (move # rest) acc)"
      unfolding minimaxLoop.simps move prod.case Let_def
      by ((rule keeps_createTempStateM keeps_applyMoveM keeps_nowM keeps_returnM keeps_ruleM
                keeps_if keeps_case_prod keeps_case_nat
                "3.IH"(1) [rule_format, OF move [symmetric] refl]
                "3.IH"(2) [rule_format, OF move [symmetric] refl]
                keeps_bindM
           | assumption | (simp; fail))+)
  qed
qed


lemma keeps_analyzeThreat: "keeps b T (analyzeThreat env g move threats)"
  unfolding analyzeThreat_def Let_def
  by ((rule keeps_createTempStateM keeps_applyMoveM keeps_setCurrentPlayerM keeps_returnM
            keeps_ruleM keeps_if keeps_case_prod keeps_bindM
       | (simp; fail))+)

lemma keeps_analyzeThreats: "keeps b T (analyzeThreats env g)"
  unfolding analyzeThreats_def
  by (intro keeps_bindM keeps_ruleM keeps_foldM keeps_analyzeThreat)

lemma keeps_evaluateSequence: "keeps b T (evaluateSequence env g sequence)"
proof -
  have step: "keeps b T
      (bindM (createTempStateM cur) (\<lambda>tempState.
       bindM (applyMoveM env tempState mx my) (\<lambda>applied.
       bindM (ruleM tempState (\<lambda>st. analyzePattern st mx my (currentPlayer st)))
         (\<lambda>analysis. returnM (tempState, totalScore + anScore analysis)))))"
    for cur mx my and totalScore :: int
    by ((rule keeps_createTempStateM keeps_applyMoveM keeps_returnM keeps_ruleM keeps_bindM
         | (simp; fail))+)
  have body: "keeps b T
      ((\<lambda>(mx, my) (cur, totalScore).
          bindM (createTempStateM cur) (\<lambda>tempState.
          bindM (applyMoveM env tempState mx my) (\<lambda>applied.
          bindM (ruleM tempState (\<lambda>st. analyzePattern st mx my (currentPlayer st)))
            (\<lambda>analysis. returnM (tempState, totalScore + anScore analysis))))) v acc)"
    for v acc
    using step by (cases v; cases acc) simp
  show ?thesis
    unfolding evaluateSequence_def
    by (intro keeps_bindM keeps_foldM body keeps_case_prod keeps_returnM)
qed

lemma keeps_threatLoop: "keeps b T (threatLoop env g started timeLimit sequences acc)"
proof (induction sequences arbitrary: acc)
  case Nil
  show ?case by (simp add: keeps_returnM)
next
  case (Cons sequence rest)
  show ?case
    unfolding threatLoop.simps
    by (intro keeps_case_prod keeps_bindM keeps_nowM keeps_if keeps_returnM
          keeps_evaluateSequence Cons.IH)
qed

lemma keeps_threatSpaceSearch: "keeps b T (threatSpaceSearch env g timeLimit)"
  unfolding threatSpaceSearch_def
  by (intro keeps_bindM keeps_nowM keeps_analyzeThreats keeps_threatLoop keeps_case_prod
        keeps_returnM)

lemma keeps_beginnerStrategy: "keeps b T (beginnerStrategy env g)"
  unfolding beginnerStrategy_def Let_def
  by (intro keeps_bindM keeps_ruleM keeps_if keeps_throwM keeps_randomM keeps_scored
        keeps_case_prod keeps_returnM)

lemma keeps_normalStrategy: "keeps b T (normalStrategy env g)"
  unfolding normalStrategy_def
  by (intro keeps_bindM keeps_minimax(1) [rule_format] keeps_returnM)

lemma keeps_hardStrategy: "keeps b T (hardStrategy env g)"
  unfolding hardStrategy_def
  by (intro keeps_bindM keeps_analyzeThreats keeps_if keeps_minimax(1) [rule_format] keeps_returnM)

lemma keeps_hellStrategy: "keeps b T (hellStrategy env g)"
  unfolding hellStrategy_def
  by (intro keeps_bindM keeps_threatSpaceSearch keeps_returnM)

lemma keeps_calculateBestMove: "keeps b T (calculateBestMove env g difficulty)"
proof -
  let ?strategy = "if difficulty = ''BEGINNER'' then beginnerStrategy env g
                   else if difficulty = ''NORMAL'' then normalStrategy env g
                   else if difficulty = ''HARD'' then hardStrategy env g
                   else if difficulty = ''HELL'' then hellStrategy env g
                   else throwM (Error (''Unknown difficulty: '' @ difficulty))"
  have strat: "keeps b T ?strategy"
    by (intro keeps_if keeps_beginnerStrategy keeps_normalStrategy keeps_hardStrategy
          keeps_hellStrategy keeps_throwM)
  have body: "keeps b T (\<lambda>a.
       if isThinking a then (Inl (Error ''AI is already thinking''), a)
       else
         let a1 = a\<lparr> heap := snd (getSnapshot (heap a) g), isThinking := True \<rparr>
         in case ?strategy a1 of
              (result, a2) \<Rightarrow>
                (case nowM env a2 of (finished, a3) \<Rightarrow> (result, a3\<lparr> isThinking := False \<rparr>)))"
    unfolding keeps_def
  proof (intro allI impI)
    fix a r a'
    assume good: "goodAt b T (heap a)"
      and run: "(if isThinking a then (Inl (Error ''AI is already thinking''), a)
       else
         let a1 = a\<lparr> heap := snd (getSnapshot (heap a) g), isThinking := True \<rparr>
         in case ?strategy a1 of
              (result, a2) \<Rightarrow>
                (case nowM env a2 of (finished, a3) \<Rightarrow> (result, a3\<lparr> isThinking := False \<rparr>))) = (r, a')"
    show "goodAt b T (heap a')"
    proof (cases "isThinking a")
      case True
      with run good show ?thesis by simp
    next
      case False
      let ?a1 = "a\<lparr> heap := snd (getSnapshot (heap a) g), isThinking := True \<rparr>"
      obtain result a2 where s: "?strategy ?a1 = (result, a2)"
        by (cases "?strategy ?a1")
      from goodAt_getSnapshot [OF good] have "goodAt b T (heap ?a1)"
        by simp
      with strat s have "goodAt b T (heap a2)"
        unfolding keeps_def by blast
      moreover from run False s have "heap a' = heap a2"
        by (auto simp: Let_def nowM_def)
      ultimately show ?thesis by simp
    qed
  qed
  show ?thesis
    unfolding calculateBestMove_def Let_def
    by (rule keeps_bindM [OF keeps_nowM]) (rule body [unfolded Let_def])
qed

lemma extends_stateOf:
  assumes e: "extends s s'" and al: "allocated s g"
  shows "stateOf s' g = stateOf s g"
proof -
  from al have g: "g < length (objHeap s)" and bd: "oBoard (objHeap s ! g) < length (boardHeap s)"
    and rows: "\<And>r. r \<in> set (boardHeap s ! oBoard (objHeap s ! g)) \<Longrightarrow> r < length (rowHeap s)"
    and h: "oMoveHistory (objHeap s ! g) < length (histHeap s)"
    by (simp_all add: allocated_def list_all_iff)
  from e have p: "prefix (rowHeap s) (rowHeap s')" "prefix (boardHeap s) (boardHeap s')"
    "prefix (histHeap s) (histHeap s')" "prefix (objHeap s) (objHeap s')"
    by (simp_all add: extends_def)
  have o: "objHeap s' ! g = objHeap s ! g"
    by (rule prefix_nth [OF p(4) g])
  have bb: "boardHeap s' ! oBoard (objHeap s ! g) = boardHeap s ! oBoard (objHeap s ! g)"
    by (rule prefix_nth [OF p(2) bd])
  have hh: "histHeap s' ! oMoveHistory (objHeap s ! g) = histHeap s ! oMoveHistory (objHeap s ! g)"
    by (rule prefix_nth [OF p(3) h])
  have rr: "map (\<lambda>r. rowHeap s' ! r) (boardHeap s ! oBoard (objHeap s ! g)) =
            map (\<lambda>r. rowHeap s ! r) (boardHeap s ! oBoard (objHeap s ! g))"
    by (rule map_cong [OF refl]) (rule prefix_nth [OF p(1) rows])
  show ?thesis
    by (simp add: stateOf_def Let_def o bb hh rr)
qed

text \<open>
  C9. Whatever the difficulty, the readings of the clocks and the random numbers,
  \<^verbatim>\<open>calculateBestMove\<close> leaves the caller's game state as it was, whether it returns
  a move or throws: every array and object that existed before the call is still there
  with the same contents, so the board, the move history and the current player of the
  caller's object are identical before and after. The moves tried during the search are
  applied to objects created by \<^verbatim>\<open>_createTempState\<close>, whose board rows and history
  are fresh copies.
\<close>

theorem calculateBestMove_frame:
  assumes "allocated (heap a) g" and "calculateBestMove env g difficulty a = (r, a')"
  shows "extends (heap a) (heap a') \<and>
         board (stateOf (heap a') g) = board (stateOf (heap a) g) \<and>
         moveHistory (stateOf (heap a') g) = moveHistory (stateOf (heap a) g) \<and>
         currentPlayer (stateOf (heap a') g) = currentPlayer (stateOf (heap a) g) \<and>
         stateOf (heap a') g = stateOf (heap a) g"
proof -
  have "goodAt (heap a) {} (heap a)"
    by (simp add: goodAt_def extends_refl)
  with keeps_calculateBestMove [of "heap a" "{}" env g difficulty] assms(2)
  have "goodAt (heap a) {} (heap a')"
    unfolding keeps_def by blast
  then have e: "extends (heap a) (heap a')"
    by (simp add: goodAt_def)
  from extends_stateOf [OF e assms(1)] e show ?thesis
    by simp
qed


end
